theory Spec2Isabelle
  imports Main "HOL-Library.Sublist" "HOL-Library.AList"
begin

text \<open>
  The two functions of the plugin that hold logic of their own, \<open>parseYamlLike\<close>
  (the option parser) and \<open>gpxToPolyline\<close> (the track extractor), embedded in HOL
  together with the parts of the language that they call: strings and \<open>trim\<close>,
  \<open>Number\<close> and \<open>parseFloat\<close>, \<open>JSON.parse\<close>, the regular expressions, and
  assignment to a property of an object. An exception is a value \<open>Inl e\<close>; a loop
  is a recursive function whose termination is proved.
\<close>

section \<open>JavaScript strings\<close>

text \<open>
  A JavaScript string is a sequence of UTF-16 code units. A code unit is modelled by its
  number, so that the white space beyond Latin-1 that \<open>trim\<close> and the regular
  expression class \<open>\s\<close> recognise can be written down, and so can the result of a
  \<open>\uXXXX\<close> escape. \<open>js\<close> turns an ASCII literal into such a string.
\<close>

type_synonym jsstring = "nat list"

definition js :: "string \<Rightarrow> jsstring" where
  "js s = map of_char s"

text \<open>
  White space as \<open>String.prototype.trim\<close> and \<open>\s\<close> see it: TAB, LF, VT, FF, CR,
  SPACE, NBSP, U+1680, U+2000..U+200A, U+2028, U+2029, U+202F, U+205F, U+3000, U+FEFF.
\<close>

definition isWhiteSpace :: "nat \<Rightarrow> bool" where
  "isWhiteSpace c \<longleftrightarrow>
     c = 9 \<or> c = 10 \<or> c = 11 \<or> c = 12 \<or> c = 13 \<or> c = 32 \<or> c = 160 \<or> c = 5760 \<or>
     (8192 \<le> c \<and> c \<le> 8202) \<or> c = 8232 \<or> c = 8233 \<or> c = 8239 \<or> c = 8287 \<or>
     c = 12288 \<or> c = 65279"

text \<open>The line terminators, which \<open>.\<close> in a regular expression does not match:
  LF, CR, U+2028, U+2029.\<close>

definition isLineTerminator :: "nat \<Rightarrow> bool" where
  "isLineTerminator c \<longleftrightarrow> c = 10 \<or> c = 13 \<or> c = 8232 \<or> c = 8233"

definition trimStart :: "jsstring \<Rightarrow> jsstring" where
  "trimStart s = dropWhile isWhiteSpace s"

definition trimEnd :: "jsstring \<Rightarrow> jsstring" where
  "trimEnd s = rev (dropWhile isWhiteSpace (rev s))"

definition trim :: "jsstring \<Rightarrow> jsstring" where
  "trim s = trimEnd (trimStart s)"

definition startsWith :: "jsstring \<Rightarrow> jsstring \<Rightarrow> bool" where
  "startsWith s p = prefix p s"

text \<open>
  \<open>src.split(/\r?\n/)\<close>: the text is cut at every LF, and a CR right before the LF
  belongs to the separator. A CR that no LF follows stays in its line. The result is
  never empty: the empty text gives one empty line.
\<close>

fun split_lines :: "jsstring \<Rightarrow> jsstring list" where
  "split_lines [] = [[]]"
| "split_lines [c] = (if c = 10 then [[], []] else [[c]])"
| "split_lines (c # d # cs) =
     (if c = 10 then [] # split_lines (d # cs)
      else if c = 13 \<and> d = 10 then [] # split_lines cs
      else (case split_lines (d # cs) of
              l # ls \<Rightarrow> (c # l) # ls
            | [] \<Rightarrow> [[c]]))"

section \<open>JavaScript numbers\<close>

text \<open>
  A Number is kept as the exact decimal value that its literal denotes,
  \<open>(-1)^neg * mant * 10^exp10\<close>, or as an infinity or NaN. The last step of the
  language, rounding that value to an IEEE double, is not modelled; no property below
  depends on it.
\<close>

datatype jsnum = NaN | Infinity bool | Dec bool nat int

definition isNaN :: "jsnum \<Rightarrow> bool" where
  "isNaN n \<longleftrightarrow> n = NaN"

fun negate :: "jsnum \<Rightarrow> jsnum" where
  "negate NaN = NaN"
| "negate (Infinity b) = Infinity (\<not> b)"
| "negate (Dec b m e) = Dec (\<not> b) m e"

definition isDigit :: "nat \<Rightarrow> bool" where
  "isDigit c \<longleftrightarrow> 48 \<le> c \<and> c \<le> 57"

definition isHexDigit :: "nat \<Rightarrow> bool" where
  "isHexDigit c \<longleftrightarrow> isDigit c \<or> (65 \<le> c \<and> c \<le> 70) \<or> (97 \<le> c \<and> c \<le> 102)"

definition hexDigitVal :: "nat \<Rightarrow> nat" where
  "hexDigitVal c = (if isDigit c then c - 48 else if c \<le> 70 then c - 55 else c - 87)"

definition radixVal :: "nat \<Rightarrow> jsstring \<Rightarrow> nat" where
  "radixVal b ds = foldl (\<lambda>a c. b * a + hexDigitVal c) 0 ds"

text \<open>The exponent part \<open>e\<close> or \<open>E\<close>, an optional sign, at least one digit. When
  the text does not start with a complete exponent part, nothing is consumed.\<close>

definition scanExponent :: "jsstring \<Rightarrow> int \<times> jsstring" where
  "scanExponent s =
     (case s of
        [] \<Rightarrow> (0, s)
      | e # r \<Rightarrow>
          if e = 101 \<or> e = 69 then
            (let neg = (r \<noteq> [] \<and> hd r = 45);
                 r' = (if r \<noteq> [] \<and> (hd r = 43 \<or> hd r = 45) then tl r else r);
                 ds = takeWhile isDigit r'
             in if ds = [] then (0, s)
                else (if neg then - int (radixVal 10 ds) else int (radixVal 10 ds),
                      dropWhile isDigit r'))
          else (0, s))"

text \<open>
  The longest prefix that is a \<open>StrUnsignedDecimalLiteral\<close> of the language's
  grammar: \<open>Infinity\<close>, digits with an optional fraction and exponent, or a fraction
  that starts with the point. The result is the value and the text left over.
\<close>

definition scanUnsignedDecimal :: "jsstring \<Rightarrow> (jsnum \<times> jsstring) option" where
  "scanUnsignedDecimal s =
     (if prefix (js ''Infinity'') s then Some (Infinity False, drop 8 s)
      else
        let ip = takeWhile isDigit s; r1 = dropWhile isDigit s in
        if r1 \<noteq> [] \<and> hd r1 = 46 then
          (let fp = takeWhile isDigit (tl r1); r3 = dropWhile isDigit (tl r1) in
           if ip = [] \<and> fp = [] then None
           else (case scanExponent r3 of
                   (e, r4) \<Rightarrow> Some (Dec False (radixVal 10 (ip @ fp)) (e - int (length fp)), r4)))
        else if ip = [] then None
        else (case scanExponent r1 of (e, r4) \<Rightarrow> Some (Dec False (radixVal 10 ip) e, r4)))"

definition scanDecimal :: "jsstring \<Rightarrow> (jsnum \<times> jsstring) option" where
  "scanDecimal s =
     (if s \<noteq> [] \<and> hd s = 43 then scanUnsignedDecimal (tl s)
      else if s \<noteq> [] \<and> hd s = 45 then
        map_option (\<lambda>(v, r). (negate v, r)) (scanUnsignedDecimal (tl s))
      else scanUnsignedDecimal s)"

text \<open>A whole string that is a hexadecimal, octal or binary integer literal
  (\<open>0x1F\<close>, \<open>0o17\<close>, \<open>0b101\<close>); these take no sign.\<close>

definition scanNonDecimal :: "jsstring \<Rightarrow> nat option" where
  "scanNonDecimal s =
     (case s of
        z # x # ds \<Rightarrow>
          if z = 48 \<and> ds \<noteq> [] then
            (if (x = 120 \<or> x = 88) \<and> list_all isHexDigit ds then Some (radixVal 16 ds)
             else if (x = 111 \<or> x = 79) \<and> list_all (\<lambda>c. 48 \<le> c \<and> c \<le> 55) ds
               then Some (radixVal 8 ds)
             else if (x = 98 \<or> x = 66) \<and> list_all (\<lambda>c. c = 48 \<or> c = 49) ds
               then Some (radixVal 2 ds)
             else None)
          else None
      | _ \<Rightarrow> None)"

text \<open>
  \<open>Number(s)\<close> for a string: white space is trimmed on both sides, the empty string is
  0, and otherwise the whole of what is left must be a numeric literal; anything else is
  NaN.
\<close>

definition Number_js :: "jsstring \<Rightarrow> jsnum" where
  "Number_js s =
     (let t = trim s in
      if t = [] then Dec False 0 0
      else (case scanNonDecimal t of
              Some n \<Rightarrow> Dec False n 0
            | None \<Rightarrow>
                (case scanDecimal t of
                   Some (v, r) \<Rightarrow> if r = [] then v else NaN
                 | None \<Rightarrow> NaN)))"

text \<open>
  \<open>parseFloat(s)\<close>: leading white space is skipped and the longest prefix that is a
  decimal literal is read; what follows it is ignored. With no such prefix the result
  is NaN.
\<close>

definition parseFloat :: "jsstring \<Rightarrow> jsnum" where
  "parseFloat s =
     (case scanDecimal (trimStart s) of
        Some (v, r) \<Rightarrow> v
      | None \<Rightarrow> NaN)"

section \<open>JavaScript values and \<open>JSON.parse\<close>\<close>

text \<open>
  The values that the option parser can put into its result: what \<open>JSON.parse\<close>
  returns, and the strings, numbers and booleans that the parser builds itself. An
  object keeps its members in the order of their first appearance; a repeated key
  keeps its place and takes the last value. (JavaScript lists keys that are array
  indices first; nothing below depends on the order of the members.)
\<close>

datatype jsval =
    Null
  | Bool bool
  | Num jsnum
  | Str jsstring
  | Arr "jsval list"
  | Obj "(jsstring \<times> jsval) list"

datatype token =
    TLBrack | TRBrack | TLBrace | TRBrace | TComma | TColon
  | TString jsstring | TNumber jsnum | TTrue | TFalse | TNull

text \<open>The four white space characters of JSON: TAB, LF, CR, SPACE.\<close>

definition isJsonWs :: "nat \<Rightarrow> bool" where
  "isJsonWs c \<longleftrightarrow> c = 9 \<or> c = 10 \<or> c = 13 \<or> c = 32"

text \<open>The character after a backslash in a JSON string, and what it stands for
  (\<open>\u\<close> is read by \<open>lexString\<close>).\<close>

definition escapeChar :: "nat \<Rightarrow> nat option" where
  "escapeChar e =
     (if e = 34 then Some 34
      else if e = 92 then Some 92
      else if e = 47 then Some 47
      else if e = 98 then Some 8
      else if e = 102 then Some 12
      else if e = 110 then Some 10
      else if e = 114 then Some 13
      else if e = 116 then Some 9
      else None)"

text \<open>
  A JSON string, read from behind its opening quote up to the closing one: the decoded
  string and the text after it. A control character below U+0020, an unknown escape or
  a missing closing quote is a syntax error (\<open>None\<close>).
\<close>

fun lexString :: "jsstring \<Rightarrow> (jsstring \<times> jsstring) option" where
  "lexString [] = None"
| "lexString (c # cs) =
     (if c = 34 then Some ([], cs)
      else if c = 92 then
        (case cs of
           [] \<Rightarrow> None
         | e # r \<Rightarrow>
             if e = 117 then
               (if 4 \<le> length r \<and> list_all isHexDigit (take 4 r)
                then map_option (\<lambda>(s, t). (radixVal 16 (take 4 r) # s, t)) (lexString (drop 4 r))
                else None)
             else (case escapeChar e of
                     None \<Rightarrow> None
                   | Some x \<Rightarrow> map_option (\<lambda>(s, t). (x # s, t)) (lexString r)))
      else if c < 32 then None
      else map_option (\<lambda>(s, t). (c # s, t)) (lexString cs))"

text \<open>
  A JSON number: an optional minus, an integer part without a leading zero (or the
  single digit 0), an optional fraction with at least one digit, an optional exponent.
\<close>

definition lexNumber :: "jsstring \<Rightarrow> (jsnum \<times> jsstring) option" where
  "lexNumber s =
     (let neg = (s \<noteq> [] \<and> hd s = 45);
          s1 = (if neg then tl s else s);
          ip = (if s1 \<noteq> [] \<and> hd s1 = 48 then [48] else takeWhile isDigit s1);
          r1 = drop (length ip) s1
      in if ip = [] then None
         else
           let fp = (if r1 \<noteq> [] \<and> hd r1 = 46 then takeWhile isDigit (tl r1) else []);
               r2 = (if fp = [] then r1 else dropWhile isDigit (tl r1))
           in (case scanExponent r2 of
                 (e, r3) \<Rightarrow>
                   Some (Dec neg (radixVal 10 (ip @ fp)) (e - int (length fp)), r3)))"

lemma lexString_length: "lexString cs = Some (s, r) \<Longrightarrow> length r \<le> length cs"
proof (induction cs arbitrary: s r rule: lexString.induct)
  case 1
  then show ?case by simp
next
  case (2 c cs)
  then show ?case
    by (fastforce split: if_splits list.splits option.splits)
qed

lemma scanExponent_length: "scanExponent s = (e, r) \<Longrightarrow> length r \<le> length s"
proof -
  have d: "length (dropWhile isDigit xs) \<le> length xs" for xs
    by (rule length_dropWhile_le)
  assume "scanExponent s = (e, r)"
  then show ?thesis
    using d [of "tl (tl s)"] d [of "tl s"]
    by (auto simp: scanExponent_def Let_def split: list.splits if_splits)
qed

lemma lexNumber_length: "lexNumber s = Some (n, r) \<Longrightarrow> length r < length s"
proof -
  assume a: "lexNumber s = Some (n, r)"
  define s1 where "s1 = (if s \<noteq> [] \<and> hd s = 45 then tl s else s)"
  define ip where "ip = (if s1 \<noteq> [] \<and> hd s1 = 48 then [48] else takeWhile isDigit s1)"
  define r1 where "r1 = drop (length ip) s1"
  define fp where "fp = (if r1 \<noteq> [] \<and> hd r1 = 46 then takeWhile isDigit (tl r1) else [])"
  define r2 where "r2 = (if fp = [] then r1 else dropWhile isDigit (tl r1))"
  from a have ip: "ip \<noteq> []"
    by (auto simp: lexNumber_def Let_def ip_def s1_def split: if_splits)
  from a ip have "\<exists>e. scanExponent r2 = (e, r)"
    by (auto simp: lexNumber_def Let_def ip_def s1_def r1_def fp_def r2_def
        split: if_splits prod.splits)
  then have 1: "length r \<le> length r2"
    by (auto dest: scanExponent_length)
  have 2: "length r2 \<le> length r1"
    using length_dropWhile_le [of isDigit "tl r1"] by (auto simp: r2_def)
  have "length ip \<le> length s1"
    using length_takeWhile_le [of isDigit s1]
    by (cases s1) (auto simp: ip_def)
  with ip have 3: "length r1 < length s1"
    by (cases ip) (simp_all add: r1_def)
  have 4: "length s1 \<le> length s"
    by (simp add: s1_def)
  from 1 2 3 4 show ?thesis by linarith
qed

text \<open>The text cut into tokens; \<open>None\<close> when some character starts no token.\<close>

function lex :: "jsstring \<Rightarrow> token list option" where
  "lex [] = Some []"
| "lex (c # cs) =
     (if isJsonWs c then lex cs
      else if c = 91 then map_option (Cons TLBrack) (lex cs)
      else if c = 93 then map_option (Cons TRBrack) (lex cs)
      else if c = 123 then map_option (Cons TLBrace) (lex cs)
      else if c = 125 then map_option (Cons TRBrace) (lex cs)
      else if c = 44 then map_option (Cons TComma) (lex cs)
      else if c = 58 then map_option (Cons TColon) (lex cs)
      else if c = 34 then
        (case lexString cs of
           None \<Rightarrow> None
         | Some (s, r) \<Rightarrow> map_option (Cons (TString s)) (lex r))
      else if c = 45 \<or> isDigit c then
        (case lexNumber (c # cs) of
           None \<Rightarrow> None
         | Some (n, r) \<Rightarrow> map_option (Cons (TNumber n)) (lex r))
      else if prefix (js ''true'') (c # cs) then map_option (Cons TTrue) (lex (drop 3 cs))
      else if prefix (js ''false'') (c # cs) then map_option (Cons TFalse) (lex (drop 4 cs))
      else if prefix (js ''null'') (c # cs) then map_option (Cons TNull) (lex (drop 3 cs))
      else None)"
  by pat_completeness auto
termination
proof (relation "measure length")
  fix c cs x2 x y
  assume "lexNumber (c # cs) = Some x2" "(x, y) = x2"
  then show "(y, c # cs) \<in> measure length"
    using lexNumber_length [of "c # cs" x y] by simp
qed (auto dest: lexString_length)

declare lex.simps [simp del]

text \<open>
  The parser proper runs over the tokens with an explicit stack of the containers that
  are still open. \<open>FArr\<close> holds the elements read so far, \<open>FObj\<close> the members
  read so far, and \<open>FKey\<close> the members and the key whose value is being read.
\<close>

datatype frame =
    FArr "jsval list"
  | FObj "(jsstring \<times> jsval) list"
  | FKey "(jsstring \<times> jsval) list" jsstring

datatype pstate =
    PVal "frame list" bool
  | PKey "frame list" bool
  | PColon "frame list" jsstring
  | PSep "frame list"
  | PDone jsval

text \<open>A finished value goes to the container on top of the stack, or is the result.\<close>

fun deliver :: "jsval \<Rightarrow> frame list \<Rightarrow> pstate option" where
  "deliver v [] = Some (PDone v)"
| "deliver v (FArr es # st) = Some (PSep (FArr (es @ [v]) # st))"
| "deliver v (FKey ms k # st) = Some (PSep (FObj (AList.update k v ms) # st))"
| "deliver v (FObj ms # st) = None"

text \<open>
  One token. \<open>PVal st c\<close> expects a value (\<open>c\<close>: right after \<open>[\<close>, where
  \<open>]\<close> may close the empty array); \<open>PKey st c\<close> expects a member's key (\<open>c\<close>:
  right after \<open>{\<close>); \<open>PColon\<close> the colon after a key; \<open>PSep\<close> a comma or the
  closing bracket after a value; \<open>PDone\<close> nothing more.
\<close>

fun step :: "pstate \<Rightarrow> token \<Rightarrow> pstate option" where
  "step (PVal st c) (TString s) = deliver (Str s) st"
| "step (PVal st c) (TNumber n) = deliver (Num n) st"
| "step (PVal st c) TTrue = deliver (Bool True) st"
| "step (PVal st c) TFalse = deliver (Bool False) st"
| "step (PVal st c) TNull = deliver Null st"
| "step (PVal st c) TLBrack = Some (PVal (FArr [] # st) True)"
| "step (PVal st c) TLBrace = Some (PKey (FObj [] # st) True)"
| "step (PVal (FArr es # st) True) TRBrack = deliver (Arr es) st"
| "step (PKey st c) (TString k) = Some (PColon st k)"
| "step (PKey (FObj ms # st) True) TRBrace = deliver (Obj ms) st"
| "step (PColon (FObj ms # st) k) TColon = Some (PVal (FKey ms k # st) False)"
| "step (PSep (FArr es # st)) TComma = Some (PVal (FArr es # st) False)"
| "step (PSep (FObj ms # st)) TComma = Some (PKey (FObj ms # st) False)"
| "step (PSep (FArr es # st)) TRBrack = deliver (Arr es) st"
| "step (PSep (FObj ms # st)) TRBrace = deliver (Obj ms) st"
| "step _ _ = None"

fun run :: "pstate \<Rightarrow> token list \<Rightarrow> pstate option" where
  "run p [] = Some p"
| "run p (t # ts) = (case step p t of None \<Rightarrow> None | Some p' \<Rightarrow> run p' ts)"

datatype error = SyntaxError | TypeError | InvalidLatLng

text \<open>\<open>JSON.parse(text)\<close>: the value, or the SyntaxError that it throws.\<close>

definition JSON_parse :: "jsstring \<Rightarrow> error + jsval" where
  "JSON_parse s =
     (case lex s of
        None \<Rightarrow> Inl SyntaxError
      | Some ts \<Rightarrow>
          (case run (PVal [] False) ts of
             Some (PDone v) \<Rightarrow> Inr v
           | _ \<Rightarrow> Inl SyntaxError))"

text \<open>The two predicates below serve the proof that a text which starts with an
  opening bracket parses to an array.\<close>

definition arr_frame :: "frame \<Rightarrow> bool" where
  "arr_frame f = (case f of FArr es \<Rightarrow> True | _ \<Rightarrow> False)"

text \<open>The outermost container that is open is an array, or the result is one.\<close>

fun in_array :: "pstate \<Rightarrow> bool" where
  "in_array (PVal st c) = (st \<noteq> [] \<and> arr_frame (last st))"
| "in_array (PKey st c) = (st \<noteq> [] \<and> arr_frame (last st))"
| "in_array (PColon st k) = (st \<noteq> [] \<and> arr_frame (last st))"
| "in_array (PSep st) = (st \<noteq> [] \<and> arr_frame (last st))"
| "in_array (PDone v) = (case v of Arr xs \<Rightarrow> True | _ \<Rightarrow> False)"

section \<open>The option parser: \<open>parseYamlLike\<close>\<close>

subsection \<open>The regular expressions\<close>

definition isKeyChar :: "nat \<Rightarrow> bool" where
  "isKeyChar c \<longleftrightarrow>
     (65 \<le> c \<and> c \<le> 90) \<or> (97 \<le> c \<and> c \<le> 122) \<or> isDigit c \<or> c = 95 \<or> c = 45"

text \<open>
  \<open>line.match(/^([A-Za-z0-9_-]+):\s*(.*)$/)\<close>, giving the two groups. The key is the
  longest run of key characters at the very start of the line and a colon must follow
  it. \<open>\s*\<close> then takes all the white space there is, and the rest is the value,
  provided no line terminator stands in it (\<open>.\<close> matches none, and a shorter
  \<open>\s*\<close> would leave the same terminator to \<open>.*\<close>).
\<close>

definition match_entry :: "jsstring \<Rightarrow> (jsstring \<times> jsstring) option" where
  "match_entry line =
     (let key = takeWhile isKeyChar line; r = dropWhile isKeyChar line in
      if key = [] \<or> r = [] \<or> hd r \<noteq> 58 then None
      else
        let val = dropWhile isWhiteSpace (tl r) in
        if list_ex isLineTerminator val then None else Some (key, val))"

text \<open>\<open>/^\s*-\s+/\<close>: white space, a hyphen, at least one white space character.\<close>

definition test_item :: "jsstring \<Rightarrow> bool" where
  "test_item l =
     (let r = dropWhile isWhiteSpace l in
      r \<noteq> [] \<and> hd r = 45 \<and> tl r \<noteq> [] \<and> isWhiteSpace (hd (tl r)))"

text \<open>\<open>l.match(/^\s*-\s+(.*)$/)\<close>, giving the group: as \<open>test_item\<close>, and what
  follows the white space after the hyphen must hold no line terminator.\<close>

definition match_item :: "jsstring \<Rightarrow> jsstring option" where
  "match_item l =
     (if test_item l then
        (let item = dropWhile isWhiteSpace (tl (dropWhile isWhiteSpace l)) in
         if list_ex isLineTerminator item then None else Some item)
      else None)"

text \<open>\<open>/^\[.*\]$/.test(v)\<close>: an opening bracket first, a closing bracket last, no line
  terminator between them.\<close>

definition test_bracket :: "jsstring \<Rightarrow> bool" where
  "test_bracket v \<longleftrightarrow>
     2 \<le> length v \<and> hd v = 91 \<and> last v = 93 \<and> \<not> list_ex isLineTerminator (butlast (tl v))"

text \<open>\<open>val.replace(/'/g, '"')\<close>\<close>

definition replaceQuotes :: "jsstring \<Rightarrow> jsstring" where
  "replaceQuotes v = map (\<lambda>c. if c = 39 then 34 else c) v"

subsection \<open>The result object\<close>

text \<open>
  \<open>out\<close> starts as the object literal \<open>{}\<close>. \<open>own\<close> lists its own properties,
  the mapping that the parser returns. \<open>out[key] = v\<close> adds or overwrites an own
  property for every key but one: \<open>__proto__\<close> is an accessor that the object inherits,
  and assigning to it replaces the prototype when \<open>v\<close> is an object (an array is one)
  or null, and does nothing when \<open>v\<close> is a string, a number or a boolean. \<open>proto\<close>
  is \<open>None\<close> while the prototype is the initial one.
\<close>

record jsobject =
  own :: "(jsstring \<times> jsval) list"
  proto :: "jsval option"

definition empty_object :: jsobject where
  "empty_object = \<lparr>own = [], proto = None\<rparr>"

definition assign :: "jsobject \<Rightarrow> jsstring \<Rightarrow> jsval \<Rightarrow> jsobject" where
  "assign out key v =
     (if key = js ''__proto__'' then
        (case v of
           Arr _ \<Rightarrow> out\<lparr>proto := Some v\<rparr>
         | Obj _ \<Rightarrow> out\<lparr>proto := Some v\<rparr>
         | Null \<Rightarrow> out\<lparr>proto := Some v\<rparr>
         | _ \<Rightarrow> out)
      else out\<lparr>own := AList.update key v (own out)\<rparr>)"

subsection \<open>The loops\<close>

text \<open>\<open>lines[i]\<close>: \<open>None\<close> stands for \<open>undefined\<close>, on which a method call
  throws a TypeError.\<close>

definition at :: "'a list \<Rightarrow> nat \<Rightarrow> 'a option" where
  "at xs i = (if i < length xs then Some (xs ! i) else None)"

text \<open>
  The inner loop, which collects the items of an array block from line \<open>i\<close> on:
  \<^verbatim>\<open>
  while (i < lines.length) {
    const lm = lines[i].match(/^\s*-\s+(.*)$/);
    if (!lm) break;
    arr.push(lm[1].trim());
    i++;
  }\<close>
  It returns the array and the index of the first line that it did not take.
\<close>

function array_block ::
  "jsstring list \<Rightarrow> nat \<Rightarrow> jsstring list \<Rightarrow> error + (jsstring list \<times> nat)" where
  "array_block lines i arr =
     (if i < length lines then
        (case at lines i of
           None \<Rightarrow> Inl TypeError
         | Some l \<Rightarrow>
             (case match_item l of
                None \<Rightarrow> Inr (arr, i)
              | Some item \<Rightarrow> array_block lines (i + 1) (arr @ [trim item])))
      else Inr (arr, i))"
  by pat_completeness auto
termination
  by (relation "measure (\<lambda>(lines, i, arr). length lines - i)") auto

declare array_block.simps [simp del]

text \<open>\<open>i < lines.length && lines[i].match(/^\s*-\s+/)\<close>\<close>

definition next_is_item :: "jsstring list \<Rightarrow> nat \<Rightarrow> error + bool" where
  "next_is_item lines i =
     (if i < length lines then
        (case at lines i of
           None \<Rightarrow> Inl TypeError
         | Some l \<Rightarrow> Inr (test_item l))
      else Inr False)"

text \<open>
  One pass through the body of the outer loop, entered at line \<open>i0\<close> with
  \<open>i0 < lines.length\<close>: the index of the line to go on with and the new \<open>out\<close>.
  \<open>continue\<close> leaves \<open>out\<close> as it is. The \<open>catch\<close> around \<open>JSON.parse\<close> stores
  the raw value.
\<close>

definition loop_body :: "jsstring list \<Rightarrow> nat \<Rightarrow> jsobject \<Rightarrow> error + (nat \<times> jsobject)" where
  "loop_body lines i0 out =
     (case at lines i0 of
        None \<Rightarrow> Inl TypeError
      | Some raw \<Rightarrow>
          let line = trimEnd raw; i = i0 + 1 in
          if line = [] \<or> startsWith (trimStart line) (js ''#'') then Inr (i, out)
          else
            (case match_entry line of
               None \<Rightarrow> Inr (i, out)
             | Some (key, val) \<Rightarrow>
                 (case (if val = [] then next_is_item lines i else Inr False) of
                    Inl e \<Rightarrow> Inl e
                  | Inr True \<Rightarrow>
                      (case array_block lines i [] of
                         Inl e \<Rightarrow> Inl e
                       | Inr (arr, i') \<Rightarrow> Inr (i', assign out key (Arr (map Str arr))))
                  | Inr False \<Rightarrow>
                      if test_bracket (trim val) then
                        (case JSON_parse (replaceQuotes val) of
                           Inr v \<Rightarrow> Inr (i, assign out key v)
                         | Inl e \<Rightarrow> Inr (i, assign out key (Str val)))
                      else if val = js ''true'' \<or> val = js ''false'' then
                        Inr (i, assign out key (Bool (val = js ''true'')))
                      else if \<not> isNaN (Number_js val) then
                        Inr (i, assign out key (Num (Number_js val)))
                      else Inr (i, assign out key (Str (trim val))))))"

lemma array_block_mono: "array_block lines i arr = Inr (a, j) \<Longrightarrow> i \<le> j"
proof (induction lines i arr rule: array_block.induct)
  case (1 lines i arr)
  show ?case
  proof (cases "i < length lines")
    case True
    then have l: "at lines i = Some (lines ! i)"
      by (simp add: at_def)
    show ?thesis
    proof (cases "match_item (lines ! i)")
      case None
      with True l "1.prems" show ?thesis
        by (simp add: array_block.simps [of lines i])
    next
      case (Some item)
      with True l "1.prems" have "array_block lines (i + 1) (arr @ [trim item]) = Inr (a, j)"
        by (simp add: array_block.simps [of lines i])
      with "1.IH" [OF True l Some] show ?thesis
        by simp
    qed
  next
    case False
    with "1.prems" show ?thesis
      by (simp add: array_block.simps [of lines i])
  qed
qed

lemma loop_body_advances: "loop_body lines i out = Inr (j, out') \<Longrightarrow> i < j"
  by (auto simp: loop_body_def Let_def next_is_item_def
      split: option.splits if_splits sum.splits bool.splits prod.splits
      dest!: array_block_mono)

text \<open>
  The outer loop, \<open>while (i < lines.length) { ... }\<close>, and then \<open>return out\<close>.
\<close>

function parse_loop :: "jsstring list \<Rightarrow> nat \<Rightarrow> jsobject \<Rightarrow> error + jsobject" where
  "parse_loop lines i out =
     (if i < length lines then
        (case loop_body lines i out of
           Inl e \<Rightarrow> Inl e
         | Inr (i', out') \<Rightarrow> parse_loop lines i' out')
      else Inr out)"
  by pat_completeness auto
termination
proof (relation "measure (\<lambda>(lines, i, out). length lines - i)")
  fix lines :: "jsstring list" and i :: nat and out :: jsobject and b x y
  assume "i < length lines" "loop_body lines i out = Inr b" "(x, y) = b"
  then show "((lines, x, y), (lines, i, out)) \<in> measure (\<lambda>(lines, i, out). length lines - i)"
    using loop_body_advances [of lines i out x y] by auto
qed simp

declare parse_loop.simps [simp del]

definition parseYamlLike :: "jsstring \<Rightarrow> error + jsobject" where
  "parseYamlLike src = parse_loop (split_lines src) 0 empty_object"

subsection \<open>Entries\<close>

text \<open>
  What the outer loop makes of one line: after \<open>trimEnd\<close>, an empty line and a
  line whose first character after leading white space is \<open>#\<close> are skipped, and
  so is a line that the entry pattern does not match. Otherwise the line is an entry
  with its key and value.
\<close>

definition entry_of :: "jsstring \<Rightarrow> (jsstring \<times> jsstring) option" where
  "entry_of raw =
     (let line = trimEnd raw in
      if line = [] \<or> startsWith (trimStart line) (js ''#'') then None
      else match_entry line)"

text \<open>The value that an entry stores when no array block follows it.\<close>

definition scalar_value :: "jsstring \<Rightarrow> jsval" where
  "scalar_value val =
     (if test_bracket (trim val) then
        (case JSON_parse (replaceQuotes val) of Inr v \<Rightarrow> v | Inl e \<Rightarrow> Str val)
      else if val = js ''true'' \<or> val = js ''false'' then Bool (val = js ''true'')
      else if \<not> isNaN (Number_js val) then Num (Number_js val)
      else Str (trim val))"

text \<open>
  \<open>reaches lines (i, out) (j, out')\<close>: the outer loop, at the head of a pass with
  index \<open>i\<close> and result \<open>out\<close>, later stands at the head of a pass with index
  \<open>j\<close> and result \<open>out'\<close>.
\<close>

inductive reaches :: "jsstring list \<Rightarrow> nat \<times> jsobject \<Rightarrow> nat \<times> jsobject \<Rightarrow> bool"
  for lines :: "jsstring list" where
  here: "reaches lines c c"
| pass: "i < length lines \<Longrightarrow> loop_body lines i out = Inr (j, out') \<Longrightarrow>
         reaches lines (j, out') c \<Longrightarrow> reaches lines (i, out) c"

text \<open>
  The Option Value of the specification: a string, a number, a boolean, an array of
  strings, or a pair of numbers.
\<close>

definition option_value :: "jsval \<Rightarrow> bool" where
  "option_value v =
     (case v of
        Str s \<Rightarrow> True
      | Num n \<Rightarrow> True
      | Bool b \<Rightarrow> True
      | Arr xs \<Rightarrow>
          list_all (\<lambda>x. case x of Str s \<Rightarrow> True | _ \<Rightarrow> False) xs \<or>
          (length xs = 2 \<and> list_all (\<lambda>x. case x of Num n \<Rightarrow> True | _ \<Rightarrow> False) xs)
      | _ \<Rightarrow> False)"

text \<open>What the parser does store: a string, a number that is not NaN, a boolean, or
  an array.\<close>

definition stored_value :: "jsval \<Rightarrow> bool" where
  "stored_value v =
     (case v of
        Str s \<Rightarrow> True
      | Num n \<Rightarrow> \<not> isNaN n
      | Bool b \<Rightarrow> True
      | Arr xs \<Rightarrow> True
      | _ \<Rightarrow> False)"

section \<open>The track extractor: \<open>gpxToPolyline\<close>\<close>

text \<open>
  The document that the browser's parser builds: elements with their attributes and
  children, and character data.
\<close>

datatype node =
    Element jsstring "(jsstring \<times> jsstring) list" "node list"
  | Text jsstring

fun tagName :: "node \<Rightarrow> jsstring" where
  "tagName (Element n as cs) = n"
| "tagName (Text t) = []"

text \<open>
  \<open>xml.getElementsByTagName(q)\<close> on the document with root \<open>d\<close>: the walk that
  collects the elements named \<open>q\<close>, a node before its children and the children from
  first to last. The extractor asks for \<open>trkpt\<close> only, so the wildcard \<open>*\<close> is
  left out.
\<close>

fun getElementsByTagName :: "node \<Rightarrow> jsstring \<Rightarrow> node list" where
  "getElementsByTagName (Element n as cs) q =
     (if n = q then [Element n as cs] else []) @ concat (map (\<lambda>c. getElementsByTagName c q) cs)"
| "getElementsByTagName (Text t) q = []"

text \<open>\<open>pt.getAttribute(name)\<close>: \<open>None\<close> stands for \<open>null\<close>.\<close>

fun getAttribute :: "node \<Rightarrow> jsstring \<Rightarrow> jsstring option" where
  "getAttribute (Element n as cs) a = map_of as a"
| "getAttribute (Text t) a = None"

text \<open>\<open>a || d\<close> for a string or null \<open>a\<close>: null and the empty string are falsy.\<close>

definition or_else :: "jsstring option \<Rightarrow> jsstring \<Rightarrow> jsstring" where
  "or_else a d = (case a of None \<Rightarrow> d | Some s \<Rightarrow> if s = [] then d else s)"

text \<open>The function mapped over the track points:
  \<^verbatim>\<open>
  (pt) => {
    const lat = parseFloat(pt.getAttribute("lat") || "0");
    const lon = parseFloat(pt.getAttribute("lon") || "0");
    return [lat, lon];
  }\<close>\<close>

definition latlng :: "node \<Rightarrow> jsnum \<times> jsnum" where
  "latlng pt =
     (let lat = parseFloat (or_else (getAttribute pt (js ''lat'')) (js ''0''));
          lon = parseFloat (or_else (getAttribute pt (js ''lon'')) (js ''0''))
      in (lat, lon))"

text \<open>
  The body of the \<open>try\<close> block. The two collaborators are parameters:
  \<open>parseFromString\<close> is the browser's parser (\<open>Inl\<close> when it throws) and
  \<open>polyline\<close> is the map library's constructor of a line from the coordinates
  (\<open>Inl\<close> when it throws). \<open>Inr None\<close> is \<open>return null\<close>.
\<close>

definition gpx_try ::
  "(jsstring \<Rightarrow> error + node) \<Rightarrow> ((jsnum \<times> jsnum) list \<Rightarrow> error + 'p) \<Rightarrow> jsstring
    \<Rightarrow> error + 'p option" where
  "gpx_try parseFromString polyline gpxText =
     (case parseFromString gpxText of
        Inl e \<Rightarrow> Inl e
      | Inr xml \<Rightarrow>
          let trkpts = getElementsByTagName xml (js ''trkpt'') in
          if trkpts = [] then Inr None
          else
            (case polyline (map latlng trkpts) of
               Inl e \<Rightarrow> Inl e
             | Inr line \<Rightarrow> Inr (Some line)))"

text \<open>
  \<open>gpxToPolyline\<close>: the \<open>try\<close> block with its \<open>catch\<close>, which reports the error
  with \<open>console.error\<close> and returns null. The result is the returned value and the
  errors reported.
\<close>

definition gpxToPolyline ::
  "(jsstring \<Rightarrow> error + node) \<Rightarrow> ((jsnum \<times> jsnum) list \<Rightarrow> error + 'p) \<Rightarrow> jsstring
    \<Rightarrow> 'p option \<times> error list" where
  "gpxToPolyline parseFromString polyline gpxText =
     (case gpx_try parseFromString polyline gpxText of
        Inl e \<Rightarrow> (None, [e])
      | Inr r \<Rightarrow> (r, []))"

text \<open>
  \<open>L.polyline\<close> of the map library, as far as the extractor depends on it: every pair
  goes through the library's \<open>LatLng\<close> constructor, which throws
  \<open>Invalid LatLng object\<close> when a coordinate is NaN; otherwise the line holds the
  coordinates in their order.
\<close>

definition L_polyline :: "(jsnum \<times> jsnum) list \<Rightarrow> error + (jsnum \<times> jsnum) list" where
  "L_polyline latlngs =
     (if list_ex (\<lambda>(lat, lon). isNaN lat \<or> isNaN lon) latlngs then Inl InvalidLatLng
      else Inr latlngs)"

text \<open>
  Document order, in the words of the specification: all the elements of the document,
  each one before the elements inside it, and those in the order in which they are
  written.
\<close>

fun document_order :: "node \<Rightarrow> node list" where
  "document_order (Element n as cs) = Element n as cs # concat (map document_order cs)"
| "document_order (Text t) = []"

text \<open>The two-segment document of the specification: one \<open>trk\<close> with a \<open>trkseg\<close>
  of three points and a \<open>trkseg\<close> of two.\<close>

definition trkpt :: "string \<Rightarrow> string \<Rightarrow> node" where
  "trkpt lat lon = Element (js ''trkpt'') [(js ''lat'', js lat), (js ''lon'', js lon)] []"

definition two_segments :: node where
  "two_segments =
     Element (js ''gpx'') [(js ''version'', js ''1.1'')]
       [Element (js ''trk'') []
          [Element (js ''name'') [] [Text (js ''loop'')],
           Element (js ''trkseg'') []
             [trkpt ''51.1'' ''0.1'', trkpt ''51.2'' ''0.2'', trkpt ''51.3'' ''0.3''],
           Element (js ''trkseg'') []
             [trkpt ''51.4'' ''0.4'', trkpt ''51.5'' ''0.5'']]]"

definition no_lon :: node where
  "no_lon = Element (js ''gpx'') [] [Element (js ''trkpt'') [(js ''lat'', js ''51.3'')] []]"



section \<open>Properties of the option parser\<close>

subsection \<open>Lines and entries\<close>

lemma at_in: "i < length xs \<Longrightarrow> at xs i = Some (xs ! i)"
  by (simp add: at_def)

lemma trimEnd_decomp: "\<exists>w. l = trimEnd l @ w \<and> (\<forall>c\<in>set w. isWhiteSpace c)"
proof -
  have "trimEnd l @ rev (takeWhile isWhiteSpace (rev l)) =
      rev (takeWhile isWhiteSpace (rev l) @ dropWhile isWhiteSpace (rev l))"
    by (simp only: trimEnd_def rev_append)
  also have "\<dots> = l"
    by (simp only: takeWhile_dropWhile_id rev_rev_ident)
  finally have "l = trimEnd l @ rev (takeWhile isWhiteSpace (rev l))"
    by simp
  moreover have "\<forall>c\<in>set (rev (takeWhile isWhiteSpace (rev l))). isWhiteSpace c"
    by (auto dest: set_takeWhileD)
  ultimately show ?thesis by blast
qed

lemma keychar_not_ws: "isKeyChar c \<Longrightarrow> \<not> isWhiteSpace c"
  by (auto simp: isKeyChar_def isWhiteSpace_def isDigit_def)

lemma match_entry_shape:
  assumes "match_entry line = Some (k, v)"
  shows "k \<noteq> [] \<and> (\<forall>c\<in>set k. isKeyChar c) \<and> (\<exists>r. line = k @ 58 # r)"
proof -
  from assms have k: "k = takeWhile isKeyChar line" and ne: "k \<noteq> []"
    and r: "dropWhile isKeyChar line \<noteq> []" "hd (dropWhile isKeyChar line) = 58"
    by (auto simp: match_entry_def Let_def split: if_splits)
  have "line = k @ dropWhile isKeyChar line"
    by (simp add: k)
  moreover from r have "dropWhile isKeyChar line = 58 # tl (dropWhile isKeyChar line)"
    by (cases "dropWhile isKeyChar line") auto
  ultimately have "line = k @ 58 # tl (dropWhile isKeyChar line)"
    by simp
  moreover have "\<forall>c\<in>set k. isKeyChar c"
    by (auto simp: k dest: set_takeWhileD)
  ultimately show ?thesis using ne by blast
qed

lemma entry_of_shape:
  assumes "entry_of l = Some (k, v)"
  shows "k \<noteq> [] \<and> (\<forall>c\<in>set k. isKeyChar c) \<and> (\<exists>r. l = k @ 58 # r)"
proof -
  from assms have "match_entry (trimEnd l) = Some (k, v)"
    by (auto simp: entry_of_def Let_def split: if_splits)
  from match_entry_shape [OF this] obtain r where
    k: "k \<noteq> []" "\<forall>c\<in>set k. isKeyChar c" and t: "trimEnd l = k @ 58 # r"
    by blast
  from trimEnd_decomp [of l] obtain w where "l = trimEnd l @ w"
    by blast
  with t have "l = k @ 58 # (r @ w)"
    by simp
  with k show ?thesis by blast
qed

lemma entry_not_item:
  assumes "entry_of l = Some (k, v)"
  shows "\<not> test_item l"
proof -
  from entry_of_shape [OF assms] obtain r where
    k: "k \<noteq> []" "\<forall>c\<in>set k. isKeyChar c" and l: "l = k @ 58 # r"
    by blast
  from k obtain c k' where kc: "k = c # k'"
    by (cases k) auto
  with k have c: "\<not> isWhiteSpace c"
    by (auto dest: keychar_not_ws)
  have n58: "\<not> isWhiteSpace 58"
    by (simp add: isWhiteSpace_def)
  show ?thesis
  proof (cases k')
    case Nil
    with kc l c n58 show ?thesis
      by (simp add: test_item_def)
  next
    case (Cons d k'')
    with kc k have "\<not> isWhiteSpace d"
      by (auto dest: keychar_not_ws)
    with Cons kc l c show ?thesis
      by (simp add: test_item_def)
  qed
qed

lemma entry_no_match_item: "entry_of l = Some (k, v) \<Longrightarrow> match_item l = None"
  by (simp add: match_item_def entry_not_item)

subsection \<open>The loop body\<close>

lemma array_block_items:
  "array_block lines i arr = Inr (a, j) \<Longrightarrow>
     i \<le> j \<and> (\<forall>m. i \<le> m \<and> m < j \<longrightarrow> m < length lines \<and> match_item (lines ! m) \<noteq> None)"
proof (induction lines i arr rule: array_block.induct)
  case (1 lines i arr)
  show ?case
  proof (cases "i < length lines")
    case True
    then have l: "at lines i = Some (lines ! i)"
      by (simp add: at_def)
    show ?thesis
    proof (cases "match_item (lines ! i)")
      case None
      with True l "1.prems" show ?thesis
        by (auto simp: array_block.simps [of lines i])
    next
      case (Some item)
      with True l "1.prems" have "array_block lines (i + 1) (arr @ [trim item]) = Inr (a, j)"
        by (simp add: array_block.simps [of lines i])
      from "1.IH" [OF True l Some this] have
        ij: "i + 1 \<le> j" and
        al: "\<forall>m. i + 1 \<le> m \<and> m < j \<longrightarrow> m < length lines \<and> match_item (lines ! m) \<noteq> None"
        by blast+
      have "m < length lines \<and> match_item (lines ! m) \<noteq> None" if "i \<le> m" "m < j" for m
      proof (cases "m = i")
        case True
        with Some \<open>i < length lines\<close> show ?thesis by simp
      next
        case False
        with that al show ?thesis by simp
      qed
      with ij show ?thesis by simp
    qed
  next
    case False
    with "1.prems" show ?thesis
      by (auto simp: array_block.simps [of lines i])
  qed
qed

lemma array_block_total: "\<exists>a j. array_block lines i arr = Inr (a, j)"
proof (induction lines i arr rule: array_block.induct)
  case (1 lines i arr)
  show ?case
  proof (cases "i < length lines")
    case True
    then have l: "at lines i = Some (lines ! i)"
      by (simp add: at_def)
    show ?thesis
    proof (cases "match_item (lines ! i)")
      case None
      with True l show ?thesis
        by (simp add: array_block.simps [of lines i])
    next
      case (Some item)
      from "1.IH" [OF True l Some] True l Some show ?thesis
        by (simp add: array_block.simps [of lines i])
    qed
  next
    case False
    then show ?thesis
      by (simp add: array_block.simps [of lines i])
  qed
qed

lemma loop_body_no_entry:
  "i < length lines \<Longrightarrow> entry_of (lines ! i) = None \<Longrightarrow> loop_body lines i out = Inr (Suc i, out)"
  by (auto simp: loop_body_def entry_of_def at_def Let_def split: if_splits)

lemma loop_body_scalar:
  assumes "i < length lines" and "entry_of (lines ! i) = Some (key, val)"
    and "val = [] \<longrightarrow> (Suc i < length lines \<longrightarrow> \<not> test_item (lines ! Suc i))"
  shows "loop_body lines i out = Inr (Suc i, assign out key (scalar_value val))"
proof -
  from assms(2) have ne: "trimEnd (lines ! i) \<noteq> []"
    "\<not> startsWith (trimStart (trimEnd (lines ! i))) (js ''#'')"
    and m: "match_entry (trimEnd (lines ! i)) = Some (key, val)"
    by (auto simp: entry_of_def Let_def split: if_splits)
  from assms(3) have "(if val = [] then next_is_item lines (Suc i) else Inr False) = Inr False"
    by (auto simp: next_is_item_def at_def)
  with assms(1) ne m show ?thesis
    by (simp add: loop_body_def at_def Let_def scalar_value_def split: sum.splits)
qed

lemma loop_body_array:
  assumes "i < length lines" and "entry_of (lines ! i) = Some (key, [])"
    and "Suc i < length lines" and "test_item (lines ! Suc i)"
  shows "\<exists>arr j. array_block lines (Suc i) [] = Inr (arr, j) \<and>
           loop_body lines i out = Inr (j, assign out key (Arr (map Str arr)))"
proof -
  from assms(2) have ne: "trimEnd (lines ! i) \<noteq> []"
    "\<not> startsWith (trimStart (trimEnd (lines ! i))) (js ''#'')"
    and m: "match_entry (trimEnd (lines ! i)) = Some (key, [])"
    by (auto simp: entry_of_def Let_def split: if_splits)
  from assms(3,4) have n: "next_is_item lines (Suc i) = Inr True"
    by (simp add: next_is_item_def at_def)
  from array_block_total [of lines "Suc i" "[]"] obtain arr j where
    a: "array_block lines (Suc i) [] = Inr (arr, j)" by blast
  with assms(1) ne m n have "loop_body lines i out = Inr (j, assign out key (Arr (map Str arr)))"
    by (simp add: loop_body_def at_def Let_def)
  with a show ?thesis by blast
qed

lemma loop_body_cases:
  assumes "i < length lines" and "loop_body lines i out = Inr (j, out')"
  obtains (skip) "entry_of (lines ! i) = None" "j = Suc i" "out' = out"
  | (scalar) key val where "entry_of (lines ! i) = Some (key, val)" "j = Suc i"
      "out' = assign out key (scalar_value val)"
      "val = [] \<longrightarrow> (Suc i < length lines \<longrightarrow> \<not> test_item (lines ! Suc i))"
  | (array) key arr where "entry_of (lines ! i) = Some (key, [])" "Suc i < length lines"
      "test_item (lines ! Suc i)" "array_block lines (Suc i) [] = Inr (arr, j)"
      "out' = assign out key (Arr (map Str arr))"
proof (cases "entry_of (lines ! i)")
  case None
  with assms loop_body_no_entry [of i lines out] skip show ?thesis
    by simp
next
  case (Some kv)
  obtain key val where kv: "kv = (key, val)"
    by (cases kv)
  show ?thesis
  proof (cases "val = [] \<and> Suc i < length lines \<and> test_item (lines ! Suc i)")
    case True
    with Some kv have e: "entry_of (lines ! i) = Some (key, [])"
      by simp
    from loop_body_array [OF assms(1) e, of out] True obtain arr j' where
      "array_block lines (Suc i) [] = Inr (arr, j')"
      "loop_body lines i out = Inr (j', assign out key (Arr (map Str arr)))"
      by blast
    with assms(2) e True array show ?thesis
      by simp
  next
    case False
    then have c: "val = [] \<longrightarrow> (Suc i < length lines \<longrightarrow> \<not> test_item (lines ! Suc i))"
      by blast
    from Some kv have e: "entry_of (lines ! i) = Some (key, val)"
      by simp
    from loop_body_scalar [OF assms(1) e c, of out] assms(2) e c scalar show ?thesis
      by simp
  qed
qed

lemma loop_body_total: "i < length lines \<Longrightarrow> \<exists>j out'. loop_body lines i out = Inr (j, out')"
proof (cases "entry_of (lines ! i)")
  case None
  assume "i < length lines"
  with None show ?thesis
    by (simp add: loop_body_no_entry)
next
  case (Some kv)
  assume i: "i < length lines"
  obtain key val where kv: "kv = (key, val)"
    by (cases kv)
  show ?thesis
  proof (cases "val = [] \<and> Suc i < length lines \<and> test_item (lines ! Suc i)")
    case True
    with Some kv have e: "entry_of (lines ! i) = Some (key, [])"
      by simp
    from loop_body_array [OF i e, of out] True show ?thesis
      by blast
  next
    case False
    then have c: "val = [] \<longrightarrow> (Suc i < length lines \<longrightarrow> \<not> test_item (lines ! Suc i))"
      by blast
    from Some kv have e: "entry_of (lines ! i) = Some (key, val)"
      by simp
    from loop_body_scalar [OF i e c, of out] show ?thesis
      by blast
  qed
qed

lemma loop_body_index:
  assumes "i < length lines" and "loop_body lines i out = Inr (j, out')"
  shows "i < j \<and> (\<forall>m. i < m \<and> m < j \<longrightarrow> m < length lines \<and> match_item (lines ! m) \<noteq> None)"
  using assms
proof (cases rule: loop_body_cases)
  case skip
  then show ?thesis by auto
next
  case (scalar key val)
  then show ?thesis by auto
next
  case (array key arr)
  from array_block_items [OF array(4)] show ?thesis
    by (simp add: Suc_le_eq)
qed

subsection \<open>The course of the loop\<close>

lemma parse_loop_pass:
  "i < length lines \<Longrightarrow> loop_body lines i out = Inr (j, out') \<Longrightarrow>
     parse_loop lines i out = parse_loop lines j out'"
  by (simp add: parse_loop.simps [of lines i])

lemma parse_loop_done: "length lines \<le> i \<Longrightarrow> parse_loop lines i out = Inr out"
  by (simp add: parse_loop.simps [of lines i])

lemma reaches_parse_loop:
  "reaches lines c c' \<Longrightarrow> parse_loop lines (fst c) (snd c) = parse_loop lines (fst c') (snd c')"
  by (induction rule: reaches.induct) (simp_all add: parse_loop_pass)

lemma reaches_line:
  assumes "n < length lines" and "match_item (lines ! n) = None"
  shows "i \<le> n \<Longrightarrow> \<exists>st. reaches lines (i, out) (n, st)"
proof (induction "n - i" arbitrary: i out rule: less_induct)
  case less
  show ?case
  proof (cases "i = n")
    case True
    then show ?thesis
      by (auto intro: reaches.here)
  next
    case False
    with less.prems assms(1) have i: "i < length lines" "i < n"
      by simp_all
    from loop_body_total [OF i(1), of out] obtain j out' where
      b: "loop_body lines i out = Inr (j, out')" by blast
    from loop_body_index [OF i(1) b] have ij: "i < j"
      and it: "\<forall>m. i < m \<and> m < j \<longrightarrow> m < length lines \<and> match_item (lines ! m) \<noteq> None"
      by blast+
    have jn: "j \<le> n"
    proof (rule ccontr)
      assume "\<not> j \<le> n"
      with i(2) it have "match_item (lines ! n) \<noteq> None"
        by simp
      with assms(2) show False by simp
    qed
    with ij have "n - j < n - i"
      by simp
    from less.hyps [OF this jn, of out'] obtain st where "reaches lines (j, out') (n, st)"
      by blast
    with i(1) b have "reaches lines (i, out) (n, st)"
      by (rule reaches.pass)
    then show ?thesis by blast
  qed
qed

lemma reaches_end:
  "\<exists>j r. reaches lines (i, out) (j, r) \<and> length lines \<le> j \<and> parse_loop lines i out = Inr r"
proof (induction "length lines - i" arbitrary: i out rule: less_induct)
  case less
  show ?case
  proof (cases "i < length lines")
    case True
    from loop_body_total [OF True, of out] obtain j out' where
      b: "loop_body lines i out = Inr (j, out')" by blast
    from loop_body_index [OF True b] have "i < j"
      by blast
    with True have "length lines - j < length lines - i"
      by simp
    from less.hyps [OF this, of out'] obtain j' r where
      r: "reaches lines (j, out') (j', r)" "length lines \<le> j'" "parse_loop lines j out' = Inr r"
      by blast
    from True b r(1) have "reaches lines (i, out) (j', r)"
      by (rule reaches.pass)
    moreover from True b r(3) have "parse_loop lines i out = Inr r"
      by (simp add: parse_loop_pass)
    ultimately show ?thesis using r(2) by blast
  next
    case False
    then show ?thesis
      by (auto intro: reaches.here simp: parse_loop_done)
  qed
qed

lemma parse_reaches:
  assumes "parseYamlLike t = Inr r"
  shows "\<exists>j. reaches (split_lines t) (0, empty_object) (j, r)"
proof -
  from reaches_end [of "split_lines t" 0 empty_object] assms show ?thesis
    by (auto simp: parseYamlLike_def)
qed

lemma assign_other:
  "key \<noteq> k \<Longrightarrow> map_of (own (assign out key v)) k = map_of (own out) k"
  by (auto simp: assign_def update_conv' split: jsval.splits)

lemma assign_same:
  "key \<noteq> js ''__proto__'' \<Longrightarrow> map_of (own (assign out key v)) key = Some v"
  by (simp add: assign_def update_conv')

lemma reaches_frame:
  assumes "reaches lines c c'"
    and "\<forall>m. fst c \<le> m \<and> m < length lines \<longrightarrow> (\<forall>v. entry_of (lines ! m) \<noteq> Some (k, v))"
  shows "map_of (own (snd c')) k = map_of (own (snd c)) k"
  using assms
proof (induction rule: reaches.induct)
  case (here c)
  show ?case by simp
next
  case (pass i out j out' c)
  from loop_body_index [OF pass.hyps(1,2)] have ij: "i < j"
    by blast
  with pass.prems have "\<forall>m. fst (j, out') \<le> m \<and> m < length lines \<longrightarrow>
      (\<forall>v. entry_of (lines ! m) \<noteq> Some (k, v))"
    by simp
  from pass.IH [OF this] have 1: "map_of (own (snd c)) k = map_of (own out') k"
    by simp
  from pass.prems pass.hyps(1) have ne: "\<forall>v. entry_of (lines ! i) \<noteq> Some (k, v)"
    by simp
  from pass.hyps(1,2) have "map_of (own out') k = map_of (own out) k"
  proof (cases rule: loop_body_cases)
    case skip
    then show ?thesis by simp
  next
    case (scalar key val)
    with ne have "key \<noteq> k" by auto
    with scalar show ?thesis by (simp add: assign_other)
  next
    case (array key arr)
    with ne have "key \<noteq> k" by auto
    with array show ?thesis by (simp add: assign_other)
  qed
  with 1 show ?case by simp
qed

lemma entry_reached:
  assumes "n < length lines" and "entry_of (lines ! n) = Some (key, val)"
  shows "\<exists>st. reaches lines (0, out) (n, st)"
  using reaches_line [OF assms(1) entry_no_match_item [OF assms(2)], of 0 out] by simp

lemma entry_final:
  assumes n: "n < length lines"
    and e: "entry_of (lines ! n) = Some (key, val)"
    and b: "\<And>st. loop_body lines n st = Inr (j, assign st key v)"
    and k: "key \<noteq> js ''__proto__''"
    and later: "\<forall>m. n < m \<and> m < length lines \<longrightarrow> (\<forall>w. entry_of (lines ! m) \<noteq> Some (key, w))"
  shows "\<exists>r. parse_loop lines 0 out = Inr r \<and> map_of (own r) key = Some v"
proof -
  from entry_reached [OF n e, of out] obtain st where
    1: "reaches lines (0, out) (n, st)" by blast
  from reaches_end [of lines j "assign st key v"] obtain j' r where
    2: "reaches lines (j, assign st key v) (j', r)"
    and 3: "parse_loop lines j (assign st key v) = Inr r"
    by blast
  from loop_body_index [OF n b] have nj: "n < j"
    by blast
  from reaches_parse_loop [OF 1] have "parse_loop lines 0 out = parse_loop lines n st"
    by simp
  also from n b have "\<dots> = parse_loop lines j (assign st key v)"
    by (rule parse_loop_pass)
  finally have 4: "parse_loop lines 0 out = Inr r"
    using 3 by simp
  from later nj have
    "\<forall>m. fst (j, assign st key v) \<le> m \<and> m < length lines \<longrightarrow>
       (\<forall>w. entry_of (lines ! m) \<noteq> Some (key, w))"
    by simp
  from reaches_frame [OF 2 this] k have "map_of (own r) key = Some v"
    by (simp add: assign_same)
  with 4 show ?thesis by blast
qed

subsection \<open>A bracketed value parses to an array\<close>

lemma deliver_in_array:
  "st \<noteq> [] \<Longrightarrow> arr_frame (last st) \<Longrightarrow> deliver v st = Some p \<Longrightarrow> in_array p"
  by (cases "(v, st)" rule: deliver.cases) (auto simp: arr_frame_def split: if_splits)

lemma close_array_in_array:
  assumes "arr_frame (last (FArr es # st))" and "deliver (Arr es) st = Some p"
  shows "in_array p"
proof (cases st)
  case Nil
  with assms(2) show ?thesis by auto
next
  case (Cons f fs)
  with assms(1) have "st \<noteq> []" "arr_frame (last st)"
    by simp_all
  then show ?thesis
    using assms(2) by (rule deliver_in_array)
qed

lemma close_object_in_array:
  assumes "arr_frame (last (FObj ms # st))" and "deliver (Obj ms) st = Some p"
  shows "in_array p"
proof (cases st)
  case Nil
  with assms(1) show ?thesis by (simp add: arr_frame_def)
next
  case (Cons f fs)
  with assms(1) have "st \<noteq> []" "arr_frame (last st)"
    by simp_all
  then show ?thesis
    using assms(2) by (rule deliver_in_array)
qed

lemma step_in_array: "in_array p \<Longrightarrow> step p t = Some p' \<Longrightarrow> in_array p'"
proof (induction p t rule: step.induct)
qed (auto simp: arr_frame_def dest: deliver_in_array close_array_in_array close_object_in_array
    split: if_splits)

lemma run_in_array: "in_array p \<Longrightarrow> run p ts = Some p' \<Longrightarrow> in_array p'"
proof (induction ts arbitrary: p)
  case Nil
  then show ?case by simp
next
  case (Cons t ts)
  then show ?case
    by (auto split: option.splits dest: step_in_array)
qed

lemma run_bracket:
  assumes "run (PVal [] False) (TLBrack # ts) = Some (PDone v)"
  shows "\<exists>xs. v = Arr xs"
proof -
  from assms have "run (PVal [FArr []] True) ts = Some (PDone v)"
    by simp
  moreover have "in_array (PVal [FArr []] True)"
    by (simp add: arr_frame_def)
  ultimately have "in_array (PDone v)"
    by (rule run_in_array [rotated])
  then show ?thesis
    by (cases v) auto
qed

lemma ws_starts_no_token:
  assumes "isWhiteSpace c"
  shows "c \<noteq> 91 \<and> c \<noteq> 93 \<and> c \<noteq> 123 \<and> c \<noteq> 125 \<and> c \<noteq> 44 \<and> c \<noteq> 58 \<and> c \<noteq> 34 \<and>
         c \<noteq> 45 \<and> \<not> isDigit c \<and> c \<noteq> 116 \<and> c \<noteq> 102 \<and> c \<noteq> 110"
  using assms unfolding isWhiteSpace_def isDigit_def by presburger

lemma lex_ws_None: 
  assumes "isWhiteSpace c" and "\<not> isJsonWs c"
  shows "lex (c # cs) = None"
proof -
  from ws_starts_no_token [OF assms(1)] have
    "\<not> prefix (js ''true'') (c # cs)" "\<not> prefix (js ''false'') (c # cs)"
    "\<not> prefix (js ''null'') (c # cs)"
    by (simp_all add: js_def)
  with ws_starts_no_token [OF assms(1)] assms(2) show ?thesis
    by (simp add: lex.simps)
qed

lemma lex_bracket:
  assumes "\<forall>c\<in>set ws. isWhiteSpace c"
  shows "lex (ws @ 91 # rest) = Some ts \<Longrightarrow> \<exists>ts'. ts = TLBrack # ts'"
  using assms
proof (induction ws)
  case Nil
  then show ?case
    by (auto simp: lex.simps isJsonWs_def)
next
  case (Cons c ws)
  from Cons.prems have c: "isWhiteSpace c"
    by simp
  show ?case
  proof (cases "isJsonWs c")
    case True
    with Cons show ?thesis
      by (simp add: lex.simps)
  next
    case False
    with c have "lex (c # ws @ 91 # rest) = None"
      by (rule lex_ws_None)
    with Cons.prems show ?thesis by simp
  qed
qed

lemma test_bracket_head: "test_bracket x \<Longrightarrow> \<exists>x'. x = 91 # x'"
  by (cases x) (auto simp: test_bracket_def)

lemma trim_bracket:
  assumes "test_bracket (trim val)"
  shows "\<exists>ws rest. val = ws @ 91 # rest \<and> (\<forall>c\<in>set ws. isWhiteSpace c)"
proof -
  from test_bracket_head [OF assms] obtain x' where x: "trimEnd (trimStart val) = 91 # x'"
    by (auto simp: trim_def)
  from trimEnd_decomp [of "trimStart val"] obtain w where "trimStart val = trimEnd (trimStart val) @ w"
    by blast
  with x have "trimStart val = 91 # (x' @ w)"
    by simp
  then have "dropWhile isWhiteSpace val = 91 # (x' @ w)"
    by (simp add: trimStart_def)
  with takeWhile_dropWhile_id [of isWhiteSpace val]
  have "takeWhile isWhiteSpace val @ 91 # (x' @ w) = val"
    by simp
  moreover have "\<forall>c\<in>set (takeWhile isWhiteSpace val). isWhiteSpace c"
    by (auto dest: set_takeWhileD)
  ultimately show ?thesis by metis
qed

lemma replaceQuotes_ws: "\<forall>c\<in>set ws. isWhiteSpace c \<Longrightarrow> replaceQuotes ws = ws"
  by (induction ws) (auto simp: replaceQuotes_def isWhiteSpace_def)

lemma bracket_parse_is_array:
  assumes "test_bracket (trim val)" and "JSON_parse (replaceQuotes val) = Inr v"
  shows "\<exists>xs. v = Arr xs"
proof -
  from trim_bracket [OF assms(1)] obtain ws rest where
    v: "val = ws @ 91 # rest" and ws: "\<forall>c\<in>set ws. isWhiteSpace c"
    by blast
  have r: "replaceQuotes val = ws @ 91 # replaceQuotes rest"
    using replaceQuotes_ws [OF ws] by (simp add: v replaceQuotes_def)
  from assms(2) obtain ts where l: "lex (replaceQuotes val) = Some ts"
    and p: "run (PVal [] False) ts = Some (PDone v)"
    by (auto simp: JSON_parse_def split: option.splits pstate.splits)
  from l r lex_bracket [OF ws, of "replaceQuotes rest" ts] obtain ts' where "ts = TLBrack # ts'"
    by auto
  with p have "run (PVal [] False) (TLBrack # ts') = Some (PDone v)"
    by simp
  then show ?thesis
    by (rule run_bracket)
qed

subsection \<open>The value of an entry\<close>

lemma scalar_entry:
  assumes n: "n < length lines"
    and e: "entry_of (lines ! n) = Some (key, val)"
    and c: "val = [] \<longrightarrow> (Suc n < length lines \<longrightarrow> \<not> test_item (lines ! Suc n))"
  shows "(\<exists>st. reaches lines (0, empty_object) (n, st) \<and>
            loop_body lines n st = Inr (Suc n, assign st key (scalar_value val))) \<and>
         (key \<noteq> js ''__proto__'' \<and>
          (\<forall>m. n < m \<and> m < length lines \<longrightarrow> (\<forall>w. entry_of (lines ! m) \<noteq> Some (key, w))) \<longrightarrow>
            (\<exists>r. parse_loop lines 0 empty_object = Inr r \<and>
                 map_of (own r) key = Some (scalar_value val)))"
proof (intro conjI impI)
  from entry_reached [OF n e, of empty_object] obtain st where
    "reaches lines (0, empty_object) (n, st)" by blast
  with loop_body_scalar [OF n e c, of st]
  show "\<exists>st. reaches lines (0, empty_object) (n, st) \<and>
      loop_body lines n st = Inr (Suc n, assign st key (scalar_value val))"
    by blast
next
  assume a: "key \<noteq> js ''__proto__'' \<and>
      (\<forall>m. n < m \<and> m < length lines \<longrightarrow> (\<forall>w. entry_of (lines ! m) \<noteq> Some (key, w)))"
  have "loop_body lines n st = Inr (Suc n, assign st key (scalar_value val))" for st
    by (rule loop_body_scalar [OF n e c])
  from entry_final [OF n e this, of empty_object] a
  show "\<exists>r. parse_loop lines 0 empty_object = Inr r \<and>
      map_of (own r) key = Some (scalar_value val)"
    by blast
qed

lemma scalar_value_bracket:
  "test_bracket (trim val) \<Longrightarrow>
     scalar_value val = (case JSON_parse (replaceQuotes val) of Inr a \<Rightarrow> a | Inl e \<Rightarrow> Str val)"
  by (simp add: scalar_value_def)

lemma scalar_value_stored: "stored_value (scalar_value val)"
proof (cases "test_bracket (trim val)")
  case True
  show ?thesis
  proof (cases "JSON_parse (replaceQuotes val)")
    case (Inl e)
    with True show ?thesis
      by (simp add: scalar_value_def stored_value_def)
  next
    case (Inr a)
    from bracket_parse_is_array [OF True Inr] obtain xs where "a = Arr xs"
      by blast
    with True Inr show ?thesis
      by (simp add: scalar_value_def stored_value_def)
  qed
next
  case False
  then show ?thesis
    by (simp add: scalar_value_def stored_value_def)
qed

subsection \<open>Keys and values along the loop\<close>

lemma split_lines_parts:
  "split_lines t \<noteq> [] \<and> prefix (hd (split_lines t)) t \<and> (\<forall>l\<in>set (split_lines t). sublist l t)"
proof (induction t rule: split_lines.induct)
  case 1
  show ?case by simp
next
  case (2 c)
  show ?case by simp
next
  case (3 c d cs)
  show ?case
  proof (cases "c = 10")
    case True
    with 3(1) show ?thesis
      by (auto simp: sublist_Cons_right)
  next
    case c: False
    show ?thesis
    proof (cases "c = 13 \<and> d = 10")
      case True
      with c 3(2) show ?thesis
        by (auto simp: sublist_Cons_right)
    next
      case False
      with c 3(3) obtain l ls where s: "split_lines (d # cs) = l # ls"
        and p: "prefix l (d # cs)" and a: "\<forall>x\<in>set (l # ls). sublist x (d # cs)"
        by (cases "split_lines (d # cs)") auto
      from c False s have e: "split_lines (c # d # cs) = (c # l) # ls"
        by auto
      from p have "sublist (c # l) (c # d # cs)"
        by (simp add: sublist_Cons_right)
      with a p show ?thesis
        unfolding e by (auto simp: sublist_Cons_right)
    qed
  qed
qed

lemma assign_keys:
  "k \<in> fst ` set (own (assign out key v)) \<Longrightarrow> k = key \<or> k \<in> fst ` set (own out)"
  by (auto simp: assign_def dom_update split: if_splits jsval.splits)

lemma assign_values:
  "map_of (own (assign out key v)) k = Some w \<Longrightarrow> w = v \<or> map_of (own out) k = Some w"
  by (auto simp: assign_def update_conv' split: if_splits jsval.splits)

lemma loop_body_stores:
  assumes "i < length lines" and "loop_body lines i out = Inr (j, out')"
  shows "out' = out \<or>
         (\<exists>key val v. entry_of (lines ! i) = Some (key, val) \<and> stored_value v \<and>
            out' = assign out key v)"
  using assms
proof (cases rule: loop_body_cases)
  case skip
  then show ?thesis by simp
next
  case (scalar key val)
  with scalar_value_stored [of val] show ?thesis
    by blast
next
  case (array key arr)
  have "stored_value (Arr (map Str arr))"
    by (simp add: stored_value_def)
  with array show ?thesis
    by blast
qed

lemma reaches_keys:
  assumes "reaches lines c c'" and "k \<in> fst ` set (own (snd c'))"
  shows "k \<in> fst ` set (own (snd c)) \<or>
         (\<exists>m v. m < length lines \<and> entry_of (lines ! m) = Some (k, v))"
  using assms
proof (induction rule: reaches.induct)
  case (here c)
  then show ?case by simp
next
  case (pass i out j out' c)
  from pass.IH [OF pass.prems] show ?case
  proof
    assume k: "k \<in> fst ` set (own (snd (j, out')))"
    from loop_body_stores [OF pass.hyps(1,2)] show ?thesis
    proof
      assume "out' = out"
      with k show ?thesis by simp
    next
      assume "\<exists>key val v. entry_of (lines ! i) = Some (key, val) \<and> stored_value v \<and>
          out' = assign out key v"
      then obtain key val v where e: "entry_of (lines ! i) = Some (key, val)"
        and o: "out' = assign out key v"
        by blast
      from k o have "k \<in> fst ` set (own (assign out key v))"
        by simp
      then have "k = key \<or> k \<in> fst ` set (own out)"
        by (rule assign_keys)
      with e pass.hyps(1) show ?thesis
        by auto
    qed
  next
    assume "\<exists>m v. m < length lines \<and> entry_of (lines ! m) = Some (k, v)"
    then show ?thesis ..
  qed
qed

lemma reaches_values:
  assumes "reaches lines c c'" and "map_of (own (snd c')) k = Some w"
  shows "map_of (own (snd c)) k = Some w \<or> stored_value w"
  using assms
proof (induction rule: reaches.induct)
  case (here c)
  then show ?case by simp
next
  case (pass i out j out' c)
  from pass.IH [OF pass.prems] show ?case
  proof
    assume k: "map_of (own (snd (j, out'))) k = Some w"
    from loop_body_stores [OF pass.hyps(1,2)] show ?thesis
    proof
      assume "out' = out"
      with k show ?thesis by simp
    next
      assume "\<exists>key val v. entry_of (lines ! i) = Some (key, val) \<and> stored_value v \<and>
          out' = assign out key v"
      then obtain key v where s: "stored_value v" and o: "out' = assign out key v"
        by blast
      from k o have "map_of (own (assign out key v)) k = Some w"
        by simp
      then have "w = v \<or> map_of (own out) k = Some w"
        by (rule assign_values)
      with s show ?thesis
        by auto
    qed
  next
    assume "stored_value w"
    then show ?thesis ..
  qed
qed

lemma keys_from_entries:
  assumes "parseYamlLike t = Inr r" and "k \<in> fst ` set (own r)"
  shows "\<exists>m v. m < length (split_lines t) \<and> entry_of (split_lines t ! m) = Some (k, v)"
proof -
  from parse_reaches [OF assms(1)] obtain j where
    "reaches (split_lines t) (0, empty_object) (j, r)" by blast
  from reaches_keys [OF this, of k] assms(2) show ?thesis
    by (auto simp: empty_object_def)
qed

subsection \<open>Evaluation at a concrete input\<close>

lemma array_block_next:
  "i < length lines \<Longrightarrow> array_block lines i arr =
     (case match_item (lines ! i) of
        None \<Rightarrow> Inr (arr, i)
      | Some item \<Rightarrow> array_block lines (i + 1) (arr @ [trim item]))"
  by (simp add: array_block.simps [of lines i] at_def)

lemma array_block_done: "length lines \<le> i \<Longrightarrow> array_block lines i arr = Inr (arr, i)"
  by (simp add: array_block.simps [of lines i])

lemma parse_loop_next:
  "i < length lines \<Longrightarrow> parse_loop lines i out =
     (case loop_body lines i out of Inl e \<Rightarrow> Inl e | Inr (i', out') \<Rightarrow> parse_loop lines i' out')"
  by (simp add: parse_loop.simps [of lines i])

lemmas string_defs =
  js_def trim_def trimEnd_def trimStart_def startsWith_def isWhiteSpace_def
  isLineTerminator_def isDigit_def isHexDigit_def hexDigitVal_def radixVal_def

lemmas number_defs =
  Number_js_def parseFloat_def scanNonDecimal_def scanDecimal_def scanUnsignedDecimal_def
  scanExponent_def isNaN_def

lemmas json_defs = JSON_parse_def lex.simps isJsonWs_def lexNumber_def escapeChar_def

lemmas parser_defs =
  parseYamlLike_def parse_loop_next parse_loop_done array_block_next array_block_done
  loop_body_def at_def next_is_item_def match_entry_def match_item_def test_item_def
  test_bracket_def replaceQuotes_def isKeyChar_def assign_def empty_object_def entry_of_def

lemma scalar_value_true: "scalar_value (js ''true'') = Bool True"
  by (simp add: scalar_value_def test_bracket_def string_defs)

lemma scalar_value_false: "scalar_value (js ''false'') = Bool False"
  by (simp add: scalar_value_def test_bracket_def string_defs)

lemma scalar_value_True: "scalar_value (js ''True'') = Str (js ''True'')"
  by (simp add: scalar_value_def test_bracket_def string_defs number_defs)

lemma scalar_value_empty: "scalar_value [] = Num (Dec False 0 0)"
  by (simp add: scalar_value_def test_bracket_def string_defs number_defs)

text \<open>The examples of the specification, and two more: single quotes are normalised,
  and a bracketed value that is no JSON stays the raw string.\<close>

lemma parse_zoom:
  "parseYamlLike (js ''zoom: 12'' @ [10]) =
     Inr \<lparr>own = [(js ''zoom'', Num (Dec False 12 0))], proto = None\<rparr>"
  by (simp add: string_defs parser_defs number_defs)

lemma parse_flag:
  "parseYamlLike (js ''flag: true'' @ [10]) =
     Inr \<lparr>own = [(js ''flag'', Bool True)], proto = None\<rparr>"
  by (simp add: string_defs parser_defs number_defs)

lemma parse_items:
  "parseYamlLike (js ''items:'' @ [10] @ js ''  - a'' @ [10] @ js ''  - b'' @ [10]) =
     Inr \<lparr>own = [(js ''items'', Arr [Str (js ''a''), Str (js ''b'')])], proto = None\<rparr>"
  by (simp add: string_defs parser_defs number_defs)

lemma parse_center:
  "parseYamlLike (js ''center: [51.3, 0.49]'' @ [10]) =
     Inr \<lparr>own = [(js ''center'', Arr [Num (Dec False 513 (- 1)), Num (Dec False 49 (- 2))])],
          proto = None\<rparr>"
  by (simp add: string_defs parser_defs number_defs json_defs)

lemma parse_single_quotes:
  "parseYamlLike (js ''gpx: ['' @ [39] @ js ''a.gpx'' @ [39] @ js '']'') =
     Inr \<lparr>own = [(js ''gpx'', Arr [Str (js ''a.gpx'')])], proto = None\<rparr>"
  by (simp add: string_defs parser_defs number_defs json_defs)

lemma parse_wikilink:
  "parseYamlLike (js ''gpx: [[a.gpx]]'') =
     Inr \<lparr>own = [(js ''gpx'', Str (js ''[[a.gpx]]''))], proto = None\<rparr>"
  by (simp add: string_defs parser_defs number_defs json_defs)

section \<open>The claims about the option parser\<close>

subsection \<open>An empty value\<close>

lemma empty_value_entry:
  assumes "n < length (split_lines t)"
    and "entry_of (split_lines t ! n) = Some (key, [])"
    and "Suc n < length (split_lines t) \<longrightarrow> \<not> test_item (split_lines t ! Suc n)"
  shows "(\<exists>st. reaches (split_lines t) (0, empty_object) (n, st) \<and>
            loop_body (split_lines t) n st = Inr (Suc n, assign st key (Num (Dec False 0 0)))) \<and>
         (key \<noteq> js ''__proto__'' \<and>
          (\<forall>m. n < m \<and> m < length (split_lines t) \<longrightarrow>
               (\<forall>w. entry_of (split_lines t ! m) \<noteq> Some (key, w))) \<longrightarrow>
            (\<exists>r. parseYamlLike t = Inr r \<and> map_of (own r) key = Some (Num (Dec False 0 0))))"
proof -
  from assms(3) have "[] = ([]::jsstring) \<longrightarrow>
      (Suc n < length (split_lines t) \<longrightarrow> \<not> test_item (split_lines t ! Suc n))"
    by simp
  from scalar_entry [OF assms(1,2) this] show ?thesis
    unfolding scalar_value_empty parseYamlLike_def .
qed

text \<open>
  Claim C1. The claim is that a key with an empty value and no list line after it is
  bound to the empty string. The parser binds it to the number 0: \<open>Number("")\<close> is
  0 and not NaN, so the numeric branch takes the empty value before the branch that
  stores strings is reached. \<open>empty_value_entry\<close> shows it for every such line; here
  is the text \<open>style:\<close>.
\<close>

theorem empty_value_is_number_zero:
  "parseYamlLike (js ''style:'') =
     Inr \<lparr>own = [(js ''style'', Num (Dec False 0 0))], proto = None\<rparr>"
  by (simp add: string_defs parser_defs number_defs)

subsection \<open>Totality\<close>

text \<open>
  Claim C3. For every input text, \<open>parseYamlLike\<close> returns a result: both loops
  end, no read of \<open>lines[i]\<close> is out of range, and the SyntaxError of
  \<open>JSON.parse\<close> is caught. A line that is no entry (blank, a comment, or not of the
  shape \<open>key: value\<close>) is passed over: the loop goes on with the next line and
  \<open>out\<close> unchanged.
\<close>

theorem parse_never_fails:
  "(\<exists>r. parseYamlLike t = Inr r) \<and>
   (i < length lines \<and> entry_of (lines ! i) = None \<longrightarrow>
      loop_body lines i out = Inr (Suc i, out))"
proof
  from reaches_end [of "split_lines t" 0 empty_object]
  show "\<exists>r. parseYamlLike t = Inr r"
    unfolding parseYamlLike_def by blast
next
  show "i < length lines \<and> entry_of (lines ! i) = None \<longrightarrow>
      loop_body lines i out = Inr (Suc i, out)"
    by (simp add: loop_body_no_entry)
qed

theorem parse_never_fails_witness:
  "(\<exists>r. parseYamlLike (js ''zoom 12'') = Inr r) \<and>
   entry_of ([js ''zoom 12''] ! 0) = None \<and>
   loop_body [js ''zoom 12''] 0 empty_object = Inr (Suc 0, empty_object)"
  using parse_never_fails [of "js ''zoom 12''" 0 "[js ''zoom 12'']" empty_object]
  by (simp add: string_defs parser_defs)

subsection \<open>Keys\<close>

text \<open>
  Claim C4. Every key of the returned mapping occurs in the text: it stands at the
  start of one of its lines with the colon right after it, and so it is a contiguous
  part of the text.
\<close>

theorem keys_occur_in_text:
  assumes "parseYamlLike t = Inr r" and "k \<in> fst ` set (own r)"
  shows "(\<exists>l\<in>set (split_lines t). prefix (k @ js '':'') l) \<and> sublist k t"
proof -
  from keys_from_entries [OF assms] obtain m v where
    m: "m < length (split_lines t)" and e: "entry_of (split_lines t ! m) = Some (k, v)"
    by blast
  from entry_of_shape [OF e] have p: "prefix (k @ js '':'') (split_lines t ! m)"
    by (auto simp: js_def)
  from m have i: "split_lines t ! m \<in> set (split_lines t)"
    by simp
  with split_lines_parts [of t] have "sublist (split_lines t ! m) t"
    by blast
  moreover from p have "sublist k (split_lines t ! m)"
    by (auto simp: prefix_def)
  ultimately have "sublist k t"
    by (rule sublist_order.order_trans [rotated])
  with p i show ?thesis by blast
qed

theorem keys_occur_in_text_witness:
  "parseYamlLike (js ''zoom: 12'' @ [10] @ js ''# a comment'') =
     Inr \<lparr>own = [(js ''zoom'', Num (Dec False 12 0))], proto = None\<rparr> \<and>
   js ''zoom'' \<in> fst ` set [(js ''zoom'', Num (Dec False 12 0))] \<and>
   (\<exists>l\<in>set (split_lines (js ''zoom: 12'' @ [10] @ js ''# a comment'')).
      prefix (js ''zoom'' @ js '':'') l) \<and>
   sublist (js ''zoom'') (js ''zoom: 12'' @ [10] @ js ''# a comment'')"
proof -
  have p: "parseYamlLike (js ''zoom: 12'' @ [10] @ js ''# a comment'') =
     Inr \<lparr>own = [(js ''zoom'', Num (Dec False 12 0))], proto = None\<rparr>"
    by (simp add: string_defs parser_defs number_defs)
  have k: "js ''zoom'' \<in> fst ` set (own \<lparr>own = [(js ''zoom'', Num (Dec False 12 0))], proto = None\<rparr>)"
    by simp
  from keys_occur_in_text [OF p k] p show ?thesis
    by simp
qed

subsection \<open>Values\<close>

text \<open>
  Claim C7, as amended. Every value of the returned mapping is a string, a number, a
  boolean or an array. The array of a list block holds strings; the array of a
  bracketed value is whatever \<open>JSON.parse\<close> returned, so it may hold any number of
  numbers, nested arrays, objects, booleans and nulls.
\<close>

theorem values_are_stored_values:
  assumes "parseYamlLike t = Inr r" and "map_of (own r) k = Some v"
  shows "stored_value v"
proof -
  from parse_reaches [OF assms(1)] obtain j where
    "reaches (split_lines t) (0, empty_object) (j, r)" by blast
  from reaches_values [OF this, of k v] assms(2) show ?thesis
    by (simp add: empty_object_def)
qed

theorem values_are_stored_values_witness:
  "parseYamlLike (js ''a: [1, 2, 3]'') =
     Inr \<lparr>own = [(js ''a'', Arr [Num (Dec False 1 0), Num (Dec False 2 0), Num (Dec False 3 0)])],
          proto = None\<rparr> \<and>
   stored_value (Arr [Num (Dec False 1 0), Num (Dec False 2 0), Num (Dec False 3 0)])"
proof -
  have p: "parseYamlLike (js ''a: [1, 2, 3]'') =
     Inr \<lparr>own = [(js ''a'', Arr [Num (Dec False 1 0), Num (Dec False 2 0), Num (Dec False 3 0)])],
          proto = None\<rparr>"
    by (simp add: string_defs parser_defs number_defs json_defs)
  from values_are_stored_values [OF p, of "js ''a''"] p show ?thesis
    by simp
qed

text \<open>
  Claim C7, as stated, fails: the value of \<open>a: [1, 2, 3]\<close> is an array of three
  numbers, which is neither an array of strings nor a pair of numbers.
\<close>

theorem option_value_counterexample:
  "parseYamlLike (js ''a: [1, 2, 3]'') =
     Inr \<lparr>own = [(js ''a'', Arr [Num (Dec False 1 0), Num (Dec False 2 0), Num (Dec False 3 0)])],
          proto = None\<rparr> \<and>
   \<not> option_value (Arr [Num (Dec False 1 0), Num (Dec False 2 0), Num (Dec False 3 0)])"
  by (simp add: string_defs parser_defs number_defs json_defs option_value_def)

subsection \<open>Booleans\<close>

text \<open>
  The value of an entry is a Boolean for the two spellings \<open>true\<close> and \<open>false\<close>
  and for no other value, whatever its case.
\<close>

lemma scalar_value_Bool:
  "scalar_value val = Bool b \<longleftrightarrow> (val = js ''true'' \<and> b) \<or> (val = js ''false'' \<and> \<not> b)"
proof (cases "test_bracket (trim val)")
  case True
  have n: "val \<noteq> js ''true''" "val \<noteq> js ''false''"
    using True by (auto simp: test_bracket_def string_defs)
  have "scalar_value val \<noteq> Bool b"
  proof (cases "JSON_parse (replaceQuotes val)")
    case (Inl e)
    with True show ?thesis
      by (simp add: scalar_value_def)
  next
    case (Inr a)
    from bracket_parse_is_array [OF True Inr] obtain xs where "a = Arr xs"
      by blast
    with True Inr show ?thesis
      by (simp add: scalar_value_def)
  qed
  with n show ?thesis by simp
next
  case False
  have d: "js ''true'' \<noteq> js ''false''"
    by (simp add: js_def)
  from False d show ?thesis
    by (auto simp: scalar_value_def)
qed

text \<open>
  Take an entry line of the text, line \<open>n\<close>, with key \<open>key\<close>. When its value is
  exactly \<open>true\<close> or \<open>false\<close> the pass of the outer loop at that line is
  \<open>out[key] = v\<close> with \<open>v\<close> the Boolean, and when it is \<open>True\<close>, with \<open>v\<close> the
  string \<open>True\<close>. The returned mapping binds \<open>key\<close> to \<open>v\<close> when no later entry
  line has the same key (the last write wins) and the key is not \<open>__proto__\<close>.
\<close>

lemma boolean_entry:
  assumes "n < length (split_lines t)"
    and "entry_of (split_lines t ! n) = Some (key, val)"
    and "(val = js ''true'' \<and> v = Bool True) \<or> (val = js ''false'' \<and> v = Bool False) \<or>
         (val = js ''True'' \<and> v = Str (js ''True''))"
  shows "(\<exists>st. reaches (split_lines t) (0, empty_object) (n, st) \<and>
            loop_body (split_lines t) n st = Inr (Suc n, assign st key v)) \<and>
         (key \<noteq> js ''__proto__'' \<and>
          (\<forall>m. n < m \<and> m < length (split_lines t) \<longrightarrow>
               (\<forall>w. entry_of (split_lines t ! m) \<noteq> Some (key, w))) \<longrightarrow>
            (\<exists>r. parseYamlLike t = Inr r \<and> map_of (own r) key = Some v))"
proof -
  from assms(3) have v: "scalar_value val = v"
    by (auto simp: scalar_value_true scalar_value_false scalar_value_True)
  from assms(3) have ne: "val \<noteq> []"
    by (auto simp: js_def)
  from ne have "val = [] \<longrightarrow>
      (Suc n < length (split_lines t) \<longrightarrow> \<not> test_item (split_lines t ! Suc n))"
    by simp
  from scalar_entry [OF assms(1,2) this] show ?thesis
    unfolding v parseYamlLike_def .
qed

lemma boolean_entry_example:
  "entry_of (split_lines (js ''flag: true'' @ [10] @ js ''name: True'') ! 0)
     = Some (js ''flag'', js ''true'') \<and>
   entry_of (split_lines (js ''flag: true'' @ [10] @ js ''name: True'') ! 1)
     = Some (js ''name'', js ''True'') \<and>
   (\<exists>r. parseYamlLike (js ''flag: true'' @ [10] @ js ''name: True'') = Inr r \<and>
        map_of (own r) (js ''flag'') = Some (Bool True)) \<and>
   (\<exists>r. parseYamlLike (js ''flag: true'' @ [10] @ js ''name: True'') = Inr r \<and>
        map_of (own r) (js ''name'') = Some (Str (js ''True'')))"
  using
    boolean_entry [of 0 "js ''flag: true'' @ [10] @ js ''name: True''" "js ''flag''"
      "js ''true''" "Bool True"]
    boolean_entry [of 1 "js ''flag: true'' @ [10] @ js ''name: True''" "js ''name''"
      "js ''True''" "Str (js ''True'')"]
  by (simp add: string_defs parser_defs number_defs)

text \<open>
  Claim C8. The claim is that for every entry line whose value is exactly \<open>true\<close> or
  \<open>false\<close> the parser stores a Boolean. It does so for every key but one
  (\<open>boolean_entry\<close>, \<open>scalar_value_Bool\<close>). \<open>out\<close> is an object literal used as a
  dictionary, and the assignment \<open>out["__proto__"] = true\<close> goes to the accessor that
  every object inherits, which ignores a Boolean: for the text \<open>__proto__: true\<close>,
  an entry line with the value \<open>true\<close>, the returned mapping has no key at all.
\<close>

theorem proto_boolean_is_not_stored:
  "entry_of (js ''__proto__: true'') = Some (js ''__proto__'', js ''true'') \<and>
   parseYamlLike (js ''__proto__: true'') = Inr \<lparr>own = [], proto = None\<rparr> \<and>
   map_of (own \<lparr>own = [], proto = None\<rparr>) (js ''__proto__'') = None"
  by (simp add: string_defs parser_defs number_defs)

subsection \<open>Bracketed values\<close>

text \<open>
  \<open>replaceQuotes\<close> keeps the length, turns every single quote into a double quote
  and leaves every other character as it is.
\<close>

lemma replaceQuotes_nth:
  "length (replaceQuotes val) = length val \<and>
   (\<forall>i<length val. replaceQuotes val ! i = (if val ! i = 39 then 34 else val ! i)) \<and>
   39 \<notin> set (replaceQuotes val)"
  by (auto simp: replaceQuotes_def)

text \<open>
  Take an entry line of the text, line \<open>n\<close>, with key \<open>key\<close>, whose trimmed value
  has the bracketed form. The pass of the outer loop at that line is \<open>out[key] = v\<close>
  with \<open>v\<close> what \<open>JSON.parse\<close> makes of the value with every single quote replaced
  by a double quote, and that is an array; when \<open>JSON.parse\<close> throws, \<open>v\<close> is the
  raw value string. The returned mapping binds \<open>key\<close> to \<open>v\<close> when no later entry
  line has the same key and the key is not \<open>__proto__\<close>.
\<close>

lemma bracket_entry:
  assumes "n < length (split_lines t)"
    and "entry_of (split_lines t ! n) = Some (key, val)"
    and "test_bracket (trim val)"
    and "v = (case JSON_parse (replaceQuotes val) of Inr a \<Rightarrow> a | Inl e \<Rightarrow> Str val)"
  shows "(case JSON_parse (replaceQuotes val) of
            Inr a \<Rightarrow> v = a \<and> (\<exists>xs. a = Arr xs)
          | Inl e \<Rightarrow> v = Str val) \<and>
         (\<exists>st. reaches (split_lines t) (0, empty_object) (n, st) \<and>
            loop_body (split_lines t) n st = Inr (Suc n, assign st key v)) \<and>
         (key \<noteq> js ''__proto__'' \<and>
          (\<forall>m. n < m \<and> m < length (split_lines t) \<longrightarrow>
               (\<forall>w. entry_of (split_lines t ! m) \<noteq> Some (key, w))) \<longrightarrow>
            (\<exists>r. parseYamlLike t = Inr r \<and> map_of (own r) key = Some v))"
proof -
  from assms(3,4) have v: "scalar_value val = v"
    by (simp add: scalar_value_bracket)
  from assms(3) have "val \<noteq> []"
    by (auto simp: test_bracket_def trim_def trimEnd_def trimStart_def)
  then have "val = [] \<longrightarrow>
      (Suc n < length (split_lines t) \<longrightarrow> \<not> test_item (split_lines t ! Suc n))"
    by simp
  from scalar_entry [OF assms(1,2) this] have
    "(\<exists>st. reaches (split_lines t) (0, empty_object) (n, st) \<and>
            loop_body (split_lines t) n st = Inr (Suc n, assign st key v)) \<and>
         (key \<noteq> js ''__proto__'' \<and>
          (\<forall>m. n < m \<and> m < length (split_lines t) \<longrightarrow>
               (\<forall>w. entry_of (split_lines t ! m) \<noteq> Some (key, w))) \<longrightarrow>
            (\<exists>r. parseYamlLike t = Inr r \<and> map_of (own r) key = Some v))"
    unfolding v parseYamlLike_def .
  moreover have "case JSON_parse (replaceQuotes val) of
      Inr a \<Rightarrow> v = a \<and> (\<exists>xs. a = Arr xs)
    | Inl e \<Rightarrow> v = Str val"
  proof (cases "JSON_parse (replaceQuotes val)")
    case (Inl e)
    with assms(4) show ?thesis by simp
  next
    case (Inr a)
    with bracket_parse_is_array [OF assms(3) Inr] assms(4) show ?thesis
      by simp
  qed
  ultimately show ?thesis by blast
qed

lemma bracket_entry_example:
  "entry_of (split_lines (js ''center: [51.3, 0.49]'' @ [10]) ! 0)
     = Some (js ''center'', js ''[51.3, 0.49]'') \<and>
   test_bracket (trim (js ''[51.3, 0.49]'')) \<and>
   JSON_parse (replaceQuotes (js ''[51.3, 0.49]''))
     = Inr (Arr [Num (Dec False 513 (- 1)), Num (Dec False 49 (- 2))]) \<and>
   (\<exists>r. parseYamlLike (js ''center: [51.3, 0.49]'' @ [10]) = Inr r \<and>
        map_of (own r) (js ''center'')
          = Some (Arr [Num (Dec False 513 (- 1)), Num (Dec False 49 (- 2))]))"
  using
    bracket_entry [of 0 "js ''center: [51.3, 0.49]'' @ [10]" "js ''center''"
      "js ''[51.3, 0.49]''" "Arr [Num (Dec False 513 (- 1)), Num (Dec False 49 (- 2))]"]
  by (simp add: string_defs parser_defs number_defs json_defs)

text \<open>
  Claim C9. The claim is that for every entry line whose trimmed value has the
  bracketed form the parser stores the parsed array. It does so for every key but one
  (\<open>bracket_entry\<close>). The assignment \<open>out["__proto__"] = [1, 2]\<close> goes to the
  accessor that every object inherits: for the text \<open>__proto__: [1, 2]\<close> the array
  becomes the prototype of the result, and the returned mapping has no key at all.
\<close>

theorem proto_array_is_not_stored:
  "entry_of (js ''__proto__: [1, 2]'') = Some (js ''__proto__'', js ''[1, 2]'') \<and>
   test_bracket (trim (js ''[1, 2]'')) \<and>
   JSON_parse (replaceQuotes (js ''[1, 2]'')) = Inr (Arr [Num (Dec False 1 0), Num (Dec False 2 0)]) \<and>
   parseYamlLike (js ''__proto__: [1, 2]'') =
     Inr \<lparr>own = [], proto = Some (Arr [Num (Dec False 1 0), Num (Dec False 2 0)])\<rparr> \<and>
   map_of (own \<lparr>own = [], proto = Some (Arr [Num (Dec False 1 0), Num (Dec False 2 0)])\<rparr>)
     (js ''__proto__'') = None"
  by (simp add: string_defs parser_defs number_defs json_defs)

subsection \<open>Indented lines\<close>

text \<open>
  Claim C10. A line that starts with a white space character is no entry, whatever
  follows: when the outer loop comes to it, it goes on with the next line and leaves
  \<open>out\<close> unchanged. The key of an entry line starts at the first character of the
  line and the colon follows it directly. And a key that no entry line of the text
  has is no key of the returned mapping, so a \<open>key: value\<close> that only stands in
  indented lines leaves no trace.
\<close>

theorem indented_line_is_no_entry:
  "(isWhiteSpace c \<longrightarrow>
      entry_of (c # rest) = None \<and>
      (i < length lines \<and> lines ! i = c # rest \<longrightarrow> loop_body lines i out = Inr (Suc i, out))) \<and>
   (entry_of l = Some (k, v) \<longrightarrow> prefix (k @ js '':'') l) \<and>
   (parseYamlLike t = Inr r \<and> (\<forall>x\<in>set (split_lines t). \<forall>w. entry_of x \<noteq> Some (key, w)) \<longrightarrow>
      key \<notin> fst ` set (own r))"
proof (intro conjI impI)
  assume c: "isWhiteSpace c"
  show n: "entry_of (c # rest) = None"
  proof (cases "entry_of (c # rest)")
    case None
    then show ?thesis .
  next
    case (Some kv)
    obtain k' v' where "kv = (k', v')"
      by (cases kv)
    with Some entry_of_shape [of "c # rest" k' v'] obtain r where
      "k' \<noteq> []" "\<forall>d\<in>set k'. isKeyChar d" "c # rest = k' @ 58 # r"
      by blast
    then have "isKeyChar c"
      by (cases k') auto
    with c show ?thesis
      by (simp add: keychar_not_ws)
  qed
  assume "i < length lines \<and> lines ! i = c # rest"
  with n show "loop_body lines i out = Inr (Suc i, out)"
    by (simp add: loop_body_no_entry)
next
  assume "entry_of l = Some (k, v)"
  from entry_of_shape [OF this] show "prefix (k @ js '':'') l"
    by (auto simp: js_def)
next
  assume a: "parseYamlLike t = Inr r \<and>
    (\<forall>x\<in>set (split_lines t). \<forall>w. entry_of x \<noteq> Some (key, w))"
  show "key \<notin> fst ` set (own r)"
  proof
    assume "key \<in> fst ` set (own r)"
    with a keys_from_entries [of t r key] obtain m w where
      "m < length (split_lines t)" "entry_of (split_lines t ! m) = Some (key, w)"
      by blast
    with a show False
      by (metis nth_mem)
  qed
qed

theorem indented_line_is_no_entry_witness:
  "isWhiteSpace 32 \<and>
   entry_of (32 # js ''zoom: 12'') = None \<and>
   loop_body [32 # js ''zoom: 12''] 0 empty_object = Inr (Suc 0, empty_object) \<and>
   entry_of (js ''zoom: 12'') = Some (js ''zoom'', js ''12'') \<and>
   prefix (js ''zoom'' @ js '':'') (js ''zoom: 12'') \<and>
   parseYamlLike (32 # js ''zoom: 12'') = Inr empty_object \<and>
   js ''zoom'' \<notin> fst ` set (own empty_object)"
  using indented_line_is_no_entry
    [of 32 "js ''zoom: 12''" 0 "[32 # js ''zoom: 12'']" empty_object
        "js ''zoom: 12''" "js ''zoom''" "js ''12''" "32 # js ''zoom: 12''" empty_object
        "js ''zoom''"]
  by (simp add: string_defs parser_defs)

section \<open>Properties of the track extractor\<close>

lemmas gpx_defs =
  gpxToPolyline_def gpx_try_def L_polyline_def latlng_def or_else_def trkpt_def two_segments_def

lemma elements_in_document_order:
  "getElementsByTagName d q = filter (\<lambda>e. tagName e = q) (document_order d)"
proof (induction d)
  case (Element n as cs)
  have "concat (map (\<lambda>c. getElementsByTagName c q) cs) =
      concat (map (\<lambda>c. filter (\<lambda>e. tagName e = q) (document_order c)) cs)"
    using Element.IH by (simp cong: map_cong)
  then show ?case
    by (simp add: filter_concat comp_def)
next
  case (Text t)
  show ?case by simp
qed

lemma polyline_accepts:
  "\<forall>pt\<in>set pts. \<not> isNaN (fst (latlng pt)) \<and> \<not> isNaN (snd (latlng pt)) \<Longrightarrow>
     L_polyline (map latlng pts) = Inr (map latlng pts)"
  by (auto simp: L_polyline_def list_ex_iff case_prod_unfold)


section \<open>The claims about the track extractor\<close>

subsection \<open>Attributes\<close>

lemma scanUnsignedDecimal_number: "scanUnsignedDecimal s = Some (v, r) \<Longrightarrow> v \<noteq> NaN"
  by (auto simp: scanUnsignedDecimal_def Let_def split: if_splits prod.splits)

lemma scanDecimal_number: "scanDecimal s = Some (v, r) \<Longrightarrow> v \<noteq> NaN"
proof -
  have n: "negate w \<noteq> NaN" if "w \<noteq> NaN" for w
    using that by (cases w) auto
  assume "scanDecimal s = Some (v, r)"
  then show ?thesis
    by (auto simp: scanDecimal_def split: if_splits dest: scanUnsignedDecimal_number n)
qed

text \<open>What \<open>parseFloat\<close> does with an attribute: with a decimal literal at its start
  (after leading white space) the result is the number of the longest such literal,
  whatever follows it; with none it is NaN.\<close>

lemma parseFloat_cases:
  "(scanDecimal (trimStart s) = None \<longrightarrow> parseFloat s = NaN) \<and>
   (scanDecimal (trimStart s) = Some (v, r) \<longrightarrow> parseFloat s = v \<and> v \<noteq> NaN)"
  by (auto simp: parseFloat_def dest: scanDecimal_number)

text \<open>
  Claim C2, as amended. The two attributes are read with \<open>parseFloat\<close>. A missing
  or empty attribute gives the coordinate 0. An attribute that starts, after leading
  white space, with a numeric literal (a signed decimal number or \<open>Infinity\<close>)
  gives that number, whatever follows it (\<open>lon="12abc"\<close> gives 12); an attribute
  with no such start gives NaN and not 0 (\<open>lon="abc"\<close>). A track point without a \<open>lon\<close> attribute does not make the
  extraction fail: when no coordinate of the document's track points is NaN, the
  sequence is returned, with longitude 0 for that point.
\<close>

theorem missing_attribute_is_zero:
  "(getAttribute pt (js ''lat'') = None \<or> getAttribute pt (js ''lat'') = Some [] \<longrightarrow>
      fst (latlng pt) = Dec False 0 0) \<and>
   (getAttribute pt (js ''lon'') = None \<or> getAttribute pt (js ''lon'') = Some [] \<longrightarrow>
      snd (latlng pt) = Dec False 0 0) \<and>
   (getAttribute pt (js ''lat'') = Some s \<and> s \<noteq> [] \<longrightarrow> fst (latlng pt) = parseFloat s) \<and>
   (getAttribute pt (js ''lon'') = Some s \<and> s \<noteq> [] \<longrightarrow> snd (latlng pt) = parseFloat s) \<and>
   (getAttribute pt (js ''lat'') = Some s \<and> s \<noteq> [] \<and> scanDecimal (trimStart s) = None \<longrightarrow>
      fst (latlng pt) = NaN) \<and>
   (getAttribute pt (js ''lon'') = Some s \<and> s \<noteq> [] \<and> scanDecimal (trimStart s) = None \<longrightarrow>
      snd (latlng pt) = NaN) \<and>
   (getAttribute pt (js ''lat'') = Some s \<and> s \<noteq> [] \<and> scanDecimal (trimStart s) = Some (v, r) \<longrightarrow>
      fst (latlng pt) = v \<and> v \<noteq> NaN) \<and>
   (getAttribute pt (js ''lon'') = Some s \<and> s \<noteq> [] \<and> scanDecimal (trimStart s) = Some (v, r) \<longrightarrow>
      snd (latlng pt) = v \<and> v \<noteq> NaN) \<and>
   (parseFromString gpxText = Inr d \<and> pt \<in> set (getElementsByTagName d (js ''trkpt'')) \<and>
    getAttribute pt (js ''lon'') = None \<and>
    (\<forall>q\<in>set (getElementsByTagName d (js ''trkpt'')).
       \<not> isNaN (fst (latlng q)) \<and> \<not> isNaN (snd (latlng q))) \<longrightarrow>
      gpxToPolyline parseFromString L_polyline gpxText =
        (Some (map latlng (getElementsByTagName d (js ''trkpt''))), []) \<and>
      (fst (latlng pt), Dec False 0 0) \<in> set (map latlng (getElementsByTagName d (js ''trkpt''))))"
proof -
  have z: "parseFloat (js ''0'') = Dec False 0 0"
    by (simp add: string_defs number_defs)
  have 1: "getAttribute pt (js ''lat'') = None \<or> getAttribute pt (js ''lat'') = Some [] \<longrightarrow>
      fst (latlng pt) = Dec False 0 0"
    by (auto simp: latlng_def or_else_def z)
  have 2: "getAttribute pt (js ''lon'') = None \<or> getAttribute pt (js ''lon'') = Some [] \<longrightarrow>
      snd (latlng pt) = Dec False 0 0"
    by (auto simp: latlng_def or_else_def z)
  have 3: "getAttribute pt (js ''lat'') = Some s \<and> s \<noteq> [] \<longrightarrow> fst (latlng pt) = parseFloat s"
    by (simp add: latlng_def or_else_def)
  have 4: "getAttribute pt (js ''lon'') = Some s \<and> s \<noteq> [] \<longrightarrow> snd (latlng pt) = parseFloat s"
    by (simp add: latlng_def or_else_def)
  from 3 parseFloat_cases [of s v r] have 5:
    "getAttribute pt (js ''lat'') = Some s \<and> s \<noteq> [] \<and> scanDecimal (trimStart s) = None \<longrightarrow>
      fst (latlng pt) = NaN"
    by simp
  from 4 parseFloat_cases [of s v r] have 6:
    "getAttribute pt (js ''lon'') = Some s \<and> s \<noteq> [] \<and> scanDecimal (trimStart s) = None \<longrightarrow>
      snd (latlng pt) = NaN"
    by simp
  from 3 parseFloat_cases [of s v r] have 7:
    "getAttribute pt (js ''lat'') = Some s \<and> s \<noteq> [] \<and> scanDecimal (trimStart s) = Some (v, r) \<longrightarrow>
      fst (latlng pt) = v \<and> v \<noteq> NaN"
    by simp
  from 4 parseFloat_cases [of s v r] have 8:
    "getAttribute pt (js ''lon'') = Some s \<and> s \<noteq> [] \<and> scanDecimal (trimStart s) = Some (v, r) \<longrightarrow>
      snd (latlng pt) = v \<and> v \<noteq> NaN"
    by simp
  have 9: "gpxToPolyline parseFromString L_polyline gpxText =
        (Some (map latlng (getElementsByTagName d (js ''trkpt''))), []) \<and>
      (fst (latlng pt), Dec False 0 0) \<in> set (map latlng (getElementsByTagName d (js ''trkpt'')))"
    if a: "parseFromString gpxText = Inr d" "pt \<in> set (getElementsByTagName d (js ''trkpt''))"
      "getAttribute pt (js ''lon'') = None"
      "\<forall>q\<in>set (getElementsByTagName d (js ''trkpt'')).
         \<not> isNaN (fst (latlng q)) \<and> \<not> isNaN (snd (latlng q))"
  proof -
    from a(2) have ne: "getElementsByTagName d (js ''trkpt'') \<noteq> []"
      by auto
    from a(4) have "L_polyline (map latlng (getElementsByTagName d (js ''trkpt''))) =
        Inr (map latlng (getElementsByTagName d (js ''trkpt'')))"
      by (rule polyline_accepts)
    with a(1) ne have r: "gpxToPolyline parseFromString L_polyline gpxText =
        (Some (map latlng (getElementsByTagName d (js ''trkpt''))), [])"
      by (simp add: gpxToPolyline_def gpx_try_def)
    from 2 a(3) have "latlng pt = (fst (latlng pt), Dec False 0 0)"
      by (simp add: prod_eq_iff)
    with a(2) have "(fst (latlng pt), Dec False 0 0) \<in> latlng ` set (getElementsByTagName d (js ''trkpt''))"
      by (metis imageI)
    with r show ?thesis by simp
  qed
  from 1 2 3 4 5 6 7 8 9 show ?thesis by blast
qed

theorem missing_attribute_is_zero_witness:
  "getAttribute (Element (js ''trkpt'') [(js ''lat'', js ''51.3'')] []) (js ''lon'') = None \<and>
   latlng (Element (js ''trkpt'') [(js ''lat'', js ''51.3'')] []) = (Dec False 513 (- 1), Dec False 0 0) \<and>
   latlng (Element (js ''trkpt'') [(js ''lon'', js ''0.49'')] []) = (Dec False 0 0, Dec False 49 (- 2)) \<and>
   scanDecimal (trimStart (js ''abc'')) = None \<and>
   latlng (Element (js ''trkpt'') [(js ''lat'', js ''abc''), (js ''lon'', js ''abc'')] []) = (NaN, NaN) \<and>
   scanDecimal (trimStart (js '' 12abc'')) = Some (Dec False 12 0, js ''abc'') \<and>
   latlng (Element (js ''trkpt'') [(js ''lat'', js '' 12abc''), (js ''lon'', js '' 12abc'')] []) =
     (Dec False 12 0, Dec False 12 0) \<and>
   gpxToPolyline (\<lambda>s. Inr no_lon) L_polyline (js ''no lon'') =
     (Some [(Dec False 513 (- 1), Dec False 0 0)], [])"
  using
    missing_attribute_is_zero
      [of "Element (js ''trkpt'') [(js ''lat'', js ''51.3'')] []" "js ''51.3''"
          "Dec False 513 (- 1)" "[]" "\<lambda>s. Inr no_lon" "js ''no lon''" no_lon]
    missing_attribute_is_zero
      [of "Element (js ''trkpt'') [(js ''lon'', js ''0.49'')] []" "js ''0.49''"
          "Dec False 49 (- 2)" "[]" "\<lambda>s. Inr no_lon" "js ''no lon''" no_lon]
    missing_attribute_is_zero
      [of "Element (js ''trkpt'') [(js ''lat'', js ''abc''), (js ''lon'', js ''abc'')] []"
          "js ''abc''" "Dec False 0 0" "[]" "\<lambda>s. Inr no_lon" "js ''no lon''" no_lon]
    missing_attribute_is_zero
      [of "Element (js ''trkpt'') [(js ''lat'', js '' 12abc''), (js ''lon'', js '' 12abc'')] []"
          "js '' 12abc''" "Dec False 12 0" "js ''abc''" "\<lambda>s. Inr no_lon" "js ''no lon''" no_lon]
  by (simp add: gpx_defs no_lon_def string_defs number_defs)

text \<open>
  Claim C2, as stated, fails for an attribute that is not numeric: \<open>lon="abc"\<close> is
  read as NaN and not as 0.
\<close>

theorem non_numeric_attribute_counterexample:
  "latlng (Element (js ''trkpt'') [(js ''lat'', js ''51.3''), (js ''lon'', js ''abc'')] []) =
     (Dec False 513 (- 1), NaN) \<and>
   snd (latlng (Element (js ''trkpt'') [(js ''lat'', js ''51.3''), (js ''lon'', js ''abc'')] []))
     \<noteq> Dec False 0 0"
  by (simp add: gpx_defs string_defs number_defs)

subsection \<open>Outcomes\<close>




subsection \<open>Document order\<close>

text \<open>
  Claim C6. Let the parser return the document \<open>d\<close> for the text. The track points
  that the extractor collects are all the \<open>trkpt\<close> elements of \<open>d\<close>, at whatever
  depth they stand, in document order, and the line is built from their coordinates
  in that order, whatever the constructor of the line does with them. With the map
  library's constructor and every coordinate a number, as in a well-formed GPX
  document, the extractor returns that sequence and reports nothing. The witness is
  the two-segment document, whose three and two points come out as one sequence of
  five.
\<close>

theorem track_points_in_document_order:
  assumes "parseFromString gpxText = Inr d"
    and "trkpts = filter (\<lambda>e. tagName e = js ''trkpt'') (document_order d)"
  shows "getElementsByTagName d (js ''trkpt'') = trkpts \<and>
         gpxToPolyline parseFromString polyline gpxText =
           (if trkpts = [] then (None, [])
            else (case polyline (map latlng trkpts) of
                    Inl e \<Rightarrow> (None, [e])
                  | Inr line \<Rightarrow> (Some line, []))) \<and>
         (trkpts \<noteq> [] \<and>
          (\<forall>pt\<in>set trkpts. \<not> isNaN (fst (latlng pt)) \<and> \<not> isNaN (snd (latlng pt))) \<longrightarrow>
            gpxToPolyline parseFromString L_polyline gpxText = (Some (map latlng trkpts), []))"
proof (intro conjI impI)
  from assms(2) show g: "getElementsByTagName d (js ''trkpt'') = trkpts"
    by (simp add: elements_in_document_order)
  with assms(1) show "gpxToPolyline parseFromString polyline gpxText =
      (if trkpts = [] then (None, [])
       else (case polyline (map latlng trkpts) of
               Inl e \<Rightarrow> (None, [e])
             | Inr line \<Rightarrow> (Some line, [])))"
    by (simp add: gpxToPolyline_def gpx_try_def split: sum.splits)
  assume a: "trkpts \<noteq> [] \<and>
    (\<forall>pt\<in>set trkpts. \<not> isNaN (fst (latlng pt)) \<and> \<not> isNaN (snd (latlng pt)))"
  then have "L_polyline (map latlng trkpts) = Inr (map latlng trkpts)"
    by (simp add: polyline_accepts)
  with assms(1) g a show
    "gpxToPolyline parseFromString L_polyline gpxText = (Some (map latlng trkpts), [])"
    by (simp add: gpxToPolyline_def gpx_try_def)
qed

theorem track_points_in_document_order_witness:
  "filter (\<lambda>e. tagName e = js ''trkpt'') (document_order two_segments) =
     [trkpt ''51.1'' ''0.1'', trkpt ''51.2'' ''0.2'', trkpt ''51.3'' ''0.3'',
      trkpt ''51.4'' ''0.4'', trkpt ''51.5'' ''0.5''] \<and>
   gpxToPolyline (\<lambda>s. Inr two_segments) L_polyline (js ''two segments'') =
     (Some [(Dec False 511 (- 1), Dec False 1 (- 1)), (Dec False 512 (- 1), Dec False 2 (- 1)),
            (Dec False 513 (- 1), Dec False 3 (- 1)), (Dec False 514 (- 1), Dec False 4 (- 1)),
            (Dec False 515 (- 1), Dec False 5 (- 1))], [])"
proof -
  have f: "filter (\<lambda>e. tagName e = js ''trkpt'') (document_order two_segments) =
     [trkpt ''51.1'' ''0.1'', trkpt ''51.2'' ''0.2'', trkpt ''51.3'' ''0.3'',
      trkpt ''51.4'' ''0.4'', trkpt ''51.5'' ''0.5'']"
    by (simp add: two_segments_def trkpt_def js_def)
  have n: "\<forall>pt\<in>set [trkpt ''51.1'' ''0.1'', trkpt ''51.2'' ''0.2'', trkpt ''51.3'' ''0.3'',
      trkpt ''51.4'' ''0.4'', trkpt ''51.5'' ''0.5''].
        \<not> isNaN (fst (latlng pt)) \<and> \<not> isNaN (snd (latlng pt))"
    by (simp add: gpx_defs string_defs number_defs)
  have l: "map latlng [trkpt ''51.1'' ''0.1'', trkpt ''51.2'' ''0.2'', trkpt ''51.3'' ''0.3'',
      trkpt ''51.4'' ''0.4'', trkpt ''51.5'' ''0.5''] =
     [(Dec False 511 (- 1), Dec False 1 (- 1)), (Dec False 512 (- 1), Dec False 2 (- 1)),
            (Dec False 513 (- 1), Dec False 3 (- 1)), (Dec False 514 (- 1), Dec False 4 (- 1)),
            (Dec False 515 (- 1), Dec False 5 (- 1))]"
    by (simp add: gpx_defs string_defs number_defs)
  have e: "[trkpt ''51.1'' ''0.1'', trkpt ''51.2'' ''0.2'', trkpt ''51.3'' ''0.3'',
      trkpt ''51.4'' ''0.4'', trkpt ''51.5'' ''0.5''] \<noteq> []"
    by simp
  from track_points_in_document_order
    [of "\<lambda>s. Inr two_segments" "js ''two segments''" two_segments _ L_polyline,
     OF refl f [symmetric]] e n
  have "gpxToPolyline (\<lambda>s. Inr two_segments) L_polyline (js ''two segments'') =
      (Some (map latlng [trkpt ''51.1'' ''0.1'', trkpt ''51.2'' ''0.2'', trkpt ''51.3'' ''0.3'',
         trkpt ''51.4'' ''0.4'', trkpt ''51.5'' ''0.5'']), [])"
    by blast
  with f show ?thesis
    unfolding l by blast
qed

end
